theory Spec2Isabelle
  imports Complex_Main "HOL-Library.AList" "HOL-Library.Multiset"
begin

section \<open>The font-size audit (lighthouse-core/audits/seo/font-size.js)\<close>

text \<open>
  A shallow embedding of the legible-font-size audit. JavaScript numbers that count
  characters, lines, columns, pixels or node ids are natural numbers; percentages computed
  from them are exact rationals (the source computes them in double precision, which
  agrees with the exact value up to the rounding of one division and one multiplication).
  Strings are byte lists, and a string that JavaScript takes for false is the empty one.
  A thrown exception is the left injection of a sum.
\<close>

subsection \<open>Strings\<close>

definition digit_char :: "nat \<Rightarrow> char" where
  "digit_char d =
     (if d = 0 then CHR ''0'' else if d = 1 then CHR ''1'' else if d = 2 then CHR ''2''
      else if d = 3 then CHR ''3'' else if d = 4 then CHR ''4'' else if d = 5 then CHR ''5''
      else if d = 6 then CHR ''6'' else if d = 7 then CHR ''7'' else if d = 8 then CHR ''8''
      else CHR ''9'')"

text \<open>Number-to-string conversion of a template literal, for a non-negative integer.\<close>

function show_nat :: "nat \<Rightarrow> string" where
  "show_nat n = (if n < 10 then [digit_char n] else show_nat (n div 10) @ [digit_char (n mod 10)])"
  by pat_completeness auto
termination
  by (relation "measure id") auto

declare show_nat.simps [simp del]

text \<open>\<open>Array.prototype.join\<close> on an array of strings.\<close>

fun join :: "string \<Rightarrow> string list \<Rightarrow> string" where
  "join sep [] = []"
| "join sep [x] = x"
| "join sep (x # y # ys) = x @ sep @ join sep (y # ys)"

text \<open>
  White space as \<open>String.prototype.trim\<close> and the regular expression class \<open>\s\<close> see it,
  restricted to the one-byte characters: tab, line feed, vertical tab, form feed, carriage
  return and space.
\<close>

definition is_space :: "char \<Rightarrow> bool" where
  "is_space c = (c = CHR 0x09 \<or> c = CHR 0x0A \<or> c = CHR 0x0B \<or> c = CHR 0x0C \<or> c = CHR 0x0D \<or> c = CHR 0x20)"

definition trim :: "string \<Rightarrow> string" where
  "trim s = rev (dropWhile is_space (rev (dropWhile is_space s)))"

text \<open>\<open>String.prototype.toLowerCase\<close> on the letters A to Z; other bytes are kept.\<close>

definition lower_char :: "char \<Rightarrow> char" where
  "lower_char c =
     (let n = (of_char c :: nat) in if 65 \<le> n \<and> n \<le> 90 then char_of (n + 32) else c)"

definition toLowerCase :: "string \<Rightarrow> string" where
  "toLowerCase s = map lower_char s"

text \<open>
  \<open>s.split(/\s+/)\<close>: the pieces between maximal runs of white space, an empty piece
  where the string starts or ends with white space. The flag says that the previous
  character belonged to a separator; \<open>cur\<close> is the current piece, reversed.
\<close>

fun split_ws_aux :: "bool \<Rightarrow> string \<Rightarrow> string \<Rightarrow> string list" where
  "split_ws_aux insep cur [] = [rev cur]"
| "split_ws_aux insep cur (c # cs) =
     (if is_space c then
        (if insep then split_ws_aux True cur cs else rev cur # split_ws_aux True [] cs)
      else split_ws_aux False (c # cur) cs)"

definition split_ws :: "string \<Rightarrow> string list" where
  "split_ws s = split_ws_aux False [] s"

subsection \<open>Data model\<close>

text \<open>
  What the audit can throw: the \<open>TypeError\<close> of a method call on \<open>undefined\<close>, and whatever
  the awaited viewport computation rejects with.
\<close>

datatype js_error = TypeError | ViewportRejected

text \<open>A DOM node of the gatherer's snapshot; \<open>attributes\<close> and \<open>parentNode\<close> may be absent.\<close>

datatype DomNode =
  DomNode (nodeId: nat) (localName: string) (attributes: "string list option")
          (parentNode: "DomNode option")

text \<open>
  The style declaration of a failing node, with the fields the audit reads. The range, the
  parent rule and the stylesheet header may be absent; \<open>styleSheetId\<close> is a string.
\<close>

datatype RuleType = Regular | Attributes | Inline

record SourceRange =
  startLine :: nat
  startColumn :: nat

record Selector =
  selText :: string

record ParentRule =
  origin :: string
  selectors :: "Selector list"

record StyleSheet =
  sourceURL :: string
  hasSourceURL :: bool
  isInline :: bool
  sheetStartLine :: nat
  sheetStartColumn :: nat

record CssRule =
  ruleType :: RuleType
  styleSheetId :: string
  srange :: "SourceRange option"
  parentRule :: "ParentRule option"
  stylesheet :: "StyleSheet option"

record FailingNodeData =
  node :: DomNode
  cssRule :: "CssRule option"
  fontSize :: nat
  textLength :: nat

subsection \<open>getFontArtifactId\<close>

definition getFontArtifactId :: "CssRule option \<Rightarrow> DomNode \<Rightarrow> string" where
  "getFontArtifactId styleDeclaration nd =
     (case styleDeclaration of
        Some sd \<Rightarrow>
          (if ruleType sd = Regular then
             (let startLine' = (case srange sd of Some r \<Rightarrow> startLine r | None \<Rightarrow> 0);
                  startColumn' = (case srange sd of Some r \<Rightarrow> startColumn r | None \<Rightarrow> 0)
              in styleSheetId sd @ ''@'' @ show_nat startLine' @ '':'' @ show_nat startColumn')
           else ''node_'' @ show_nat (nodeId nd))
      | None \<Rightarrow> ''node_'' @ show_nat (nodeId nd))"

subsection \<open>getUniqueFailingRules\<close>

text \<open>
  The \<open>Map\<close> of the source is an association list in insertion order. One iteration of
  the \<open>forEach\<close> either appends a new record built from the fragment's four fields, or
  adds the fragment's \<open>textLength\<close> to the record already stored under the key, which
  keeps its place.
\<close>

definition artifactIdOf :: "FailingNodeData \<Rightarrow> string" where
  "artifactIdOf f = getFontArtifactId (cssRule f) (node f)"

definition addFailingNode ::
  "(string \<times> FailingNodeData) list \<Rightarrow> FailingNodeData \<Rightarrow> (string \<times> FailingNodeData) list" where
  "addFailingNode failingRules f =
     (let artifactId = getFontArtifactId (cssRule f) (node f) in
      case map_of failingRules artifactId of
        None \<Rightarrow>
          AList.update artifactId
            \<lparr>node = node f, cssRule = cssRule f, fontSize = fontSize f, textLength = textLength f\<rparr>
            failingRules
      | Some failingRule \<Rightarrow>
          AList.update artifactId
            (failingRule\<lparr>textLength := textLength failingRule + textLength f\<rparr>) failingRules)"

definition failingRulesMap :: "FailingNodeData list \<Rightarrow> (string \<times> FailingNodeData) list" where
  "failingRulesMap fontSizeArtifact = foldl addFailingNode [] fontSizeArtifact"

definition getUniqueFailingRules :: "FailingNodeData list \<Rightarrow> FailingNodeData list" where
  "getUniqueFailingRules fontSizeArtifact = map snd (failingRulesMap fontSizeArtifact)"

subsection \<open>getAttributeMap and getSelector\<close>

text \<open>
  The loop of \<open>getAttributeMap\<close> reads \<open>attributes[i]\<close> and \<open>attributes[i + 1]\<close>. When the
  array has odd length the last value is \<open>undefined\<close> and \<open>.trim()\<close> throws. \<open>map.set\<close>
  overwrites the value of a key that is already there and appends a new key.
\<close>

fun getAttributeMap_loop ::
  "(string \<times> string) list \<Rightarrow> string list \<Rightarrow> js_error + (string \<times> string) list" where
  "getAttributeMap_loop m [] = Inr m"
| "getAttributeMap_loop m [n] = Inl TypeError"
| "getAttributeMap_loop m (n # v # rest) =
     (let name = toLowerCase n; value = trim v
      in getAttributeMap_loop (if value \<noteq> [] then AList.update name value m else m) rest)"

definition getAttributeMap :: "string list option \<Rightarrow> js_error + (string \<times> string) list" where
  "getAttributeMap attrs =
     getAttributeMap_loop [] (case attrs of None \<Rightarrow> [] | Some a \<Rightarrow> a)"

definition getSelector :: "DomNode \<Rightarrow> js_error + string" where
  "getSelector nd =
     (case getAttributeMap (attributes nd) of
        Inl e \<Rightarrow> Inl e
      | Inr attributeMap \<Rightarrow>
          (case map_of attributeMap ''id'' of
             Some idv \<Rightarrow> Inr (''#'' @ idv)
           | None \<Rightarrow>
               (case map_of attributeMap ''class'' of
                  Some attrClass \<Rightarrow>
                    (if attrClass \<noteq> [] then Inr (''.'' @ join ''.'' (split_ws attrClass))
                     else Inr (toLowerCase (localName nd)))
                | None \<Rightarrow> Inr (toLowerCase (localName nd)))))"

subsection \<open>nodeToTableNode\<close>

datatype SelectorValue =
  SelectorString string
| NodeValue (nvSelector: string) (nvSnippet: string)

definition attributesString :: "string list \<Rightarrow> string" where
  "attributesString attrs =
     concat (map (\<lambda>(idx, v). if idx mod 2 = 0 then '' '' @ v else ''='' @ [CHR 0x22] @ v @ [CHR 0x22])
                 (enumerate 0 attrs))"

definition nodeToTableNode :: "DomNode \<Rightarrow> js_error + SelectorValue" where
  "nodeToTableNode nd =
     (let attrs = (case attributes nd of None \<Rightarrow> [] | Some a \<Rightarrow> a);
          snippet = ''<'' @ localName nd @ attributesString attrs @ ''>''
      in case parentNode nd of
           None \<Rightarrow> Inr (NodeValue [] snippet)
         | Some p \<Rightarrow>
             (case getSelector p of
                Inl e \<Rightarrow> Inl e
              | Inr s \<Rightarrow> Inr (NodeValue s snippet)))"

subsection \<open>findStyleRuleSource\<close>

datatype SourceValue =
  UrlValue string
| CodeValue string
| SourceLocationValue (slUrl: string) (slUrlProvider: string) (slLine: nat) (slColumn: nat)

record RuleSource =
  source :: SourceValue
  selector :: SelectorValue

definition selectorsText :: "ParentRule \<Rightarrow> string" where
  "selectorsText rule = join '', '' (map selText (selectors rule))"

definition findStyleRuleSource ::
  "string \<Rightarrow> CssRule option \<Rightarrow> DomNode \<Rightarrow> js_error + RuleSource" where
  "findStyleRuleSource baseURL styleDeclaration nd =
     (case styleDeclaration of
        None \<Rightarrow>
          (case nodeToTableNode nd of
             Inl e \<Rightarrow> Inl e
           | Inr tn \<Rightarrow> Inr \<lparr>source = UrlValue baseURL, selector = tn\<rparr>)
      | Some sd \<Rightarrow>
          if ruleType sd = Attributes \<or> ruleType sd = Inline then
            (case nodeToTableNode nd of
               Inl e \<Rightarrow> Inl e
             | Inr tn \<Rightarrow> Inr \<lparr>source = UrlValue baseURL, selector = tn\<rparr>)
          else if (case parentRule sd of None \<Rightarrow> False | Some pr \<Rightarrow> origin pr = ''user-agent'') then
            Inr \<lparr>source = CodeValue ''User Agent Stylesheet'',
                 selector = SelectorString
                   (case parentRule sd of None \<Rightarrow> [] | Some pr \<Rightarrow> selectorsText pr)\<rparr>
          else
            let sel = (case parentRule sd of None \<Rightarrow> [] | Some rule \<Rightarrow> selectorsText rule) in
            if (case stylesheet sd of None \<Rightarrow> False | Some ss \<Rightarrow> sourceURL ss = []) then
              Inr \<lparr>source = CodeValue ''dynamic'', selector = SelectorString sel\<rparr>
            else
              (case (stylesheet sd, srange sd) of
                 (Some ss, Some rng) \<Rightarrow>
                   (let urlProvider = (if hasSourceURL ss then ''comment'' else ''network'');
                        line0 = startLine rng;
                        column0 = startColumn rng;
                        addHtmlLocationOffset = (isInline ss \<and> urlProvider \<noteq> ''comment'');
                        line = (if addHtmlLocationOffset then line0 + sheetStartLine ss else line0);
                        column = (if addHtmlLocationOffset \<and> startLine rng = 0
                                  then column0 + sheetStartColumn ss else column0);
                        url = sourceURL ss
                    in Inr \<lparr>source = SourceLocationValue url urlProvider line column,
                            selector = SelectorString sel\<rparr>)
               | _ \<Rightarrow> Inr \<lparr>source = CodeValue ''Unknown'', selector = SelectorString sel\<rparr>))"

subsection \<open>The audit\<close>

definition MINIMAL_PERCENTAGE_OF_LEGIBLE_TEXT :: rat where
  "MINIMAL_PERCENTAGE_OF_LEGIBLE_TEXT = 60"

definition UIStrings_displayValue :: string where
  "UIStrings_displayValue = ''{decimalProportion, number, extendedPercent} legible text''"

definition UIStrings_explanationViewport :: string where
  "UIStrings_explanationViewport =
     ''Text is illegible because there'' @ [CHR 0x27] @ ''s no viewport meta tag optimized '' @
     ''for mobile screens.''"

text \<open>
  Modelled from the spec: \<open>str_\<close> of \<open>lib/i18n/i18n.js\<close>, which is not part of the audited
  file. A message is kept as its template with the value it is given; the only value the
  audit passes is \<open>decimalProportion\<close>.
\<close>

datatype IcuMessage = IcuMessage (icuMessage: string) (icuDecimalProportion: "rat option")

text \<open>
  \<open>x.toFixed(2)\<close>: the integer \<open>n\<close> with \<open>n / 100\<close> nearest to \<open>|x|\<close> (the larger one on a
  tie), written with two decimals, after a minus sign when \<open>x < 0\<close>.
\<close>

definition toFixed2 :: "rat \<Rightarrow> string" where
  "toFixed2 x =
     (let n = nat \<lfloor>\<bar>x\<bar> * 100 + 1 / 2\<rfloor>
      in (if x < 0 then ''-'' else []) @ show_nat (n div 100) @ ''.'' @
         [digit_char (n mod 100 div 10), digit_char (n mod 10)])"

datatype TableRow =
  TableRow (rowSource: SourceValue) (rowSelector: SelectorValue) (rowCoverage: string)
           (rowFontSize: string)

record TableHeading =
  key :: string
  itemType :: string
  headingText :: string

record TableDetails =
  headings :: "TableHeading list"
  items :: "TableRow list"

text \<open>
  Modelled from the spec: \<open>Audit.makeTableDetails\<close> of \<open>audits/audit.js\<close>, which is not
  part of the audited file. The output's details hold the headings and the rows.
\<close>

definition makeTableDetails :: "TableHeading list \<Rightarrow> TableRow list \<Rightarrow> TableDetails" where
  "makeTableDetails hs tableData = \<lparr>headings = hs, items = tableData\<rparr>"

record AuditProduct =
  score :: nat
  notApplicable :: "bool option"
  explanation :: "IcuMessage option"
  details :: "TableDetails option"
  displayValue :: "IcuMessage option"

record UrlArtifact =
  finalUrl :: string

text \<open>
  The artifacts. The type \<open>'n\<close> is how the array of failing nodes is held: as the list of
  its records where only values matter, as a reference into a store where sharing matters.
  The type \<open>'m\<close> is the \<open>MetaElements\<close> artifact, which only the viewport computation reads.
\<close>

record 'n FontSizeArtifact =
  analyzedFailingNodesData :: 'n
  analyzedFailingTextLength :: nat
  failingTextLength :: nat
  totalTextLength :: nat

record ('m, 'n) Artifacts =
  TestedAsMobileDevice :: bool
  MetaElements :: 'm
  URL :: UrlArtifact
  FontSize :: "'n FontSizeArtifact"

text \<open>
  \<open>failingRules.sort((a, b) => b.textLength - a.textLength)\<close>: the comparator is negative
  exactly when \<open>a\<close> has more text, so the array is ordered by descending \<open>textLength\<close>;
  \<open>Array.prototype.sort\<close> is stable, and the stable ordering of a list is unique, so the
  insertion sort of the library computes it.
\<close>

definition sortFailingRules :: "FailingNodeData list \<Rightarrow> FailingNodeData list" where
  "sortFailingRules failingRules = sort_key (\<lambda>r. - int (textLength r)) failingRules"

definition percentageOfPassingText :: "'n FontSizeArtifact \<Rightarrow> rat" where
  "percentageOfPassingText fs =
     (of_nat (totalTextLength fs) - of_nat (failingTextLength fs)) / of_nat (totalTextLength fs) * 100"

text \<open>The callback of \<open>.map\<close>: one table row for one aggregated rule.\<close>

definition ruleRow :: "string \<Rightarrow> nat \<Rightarrow> FailingNodeData \<Rightarrow> js_error + TableRow" where
  "ruleRow pageUrl totalLen r =
     (let percentageOfAffectedText = (of_nat (textLength r) :: rat) / of_nat totalLen * 100
      in case findStyleRuleSource pageUrl (cssRule r) (node r) of
           Inl e \<Rightarrow> Inl e
         | Inr orig \<Rightarrow>
             Inr (TableRow (source orig) (selector orig)
                    (toFixed2 percentageOfAffectedText @ ''%'')
                    (show_nat (fontSize r) @ ''px'')))"

text \<open>\<open>Array.prototype.map\<close> with a callback that may throw: the first exception ends it.\<close>

fun mapE :: "('a \<Rightarrow> 'e + 'b) \<Rightarrow> 'a list \<Rightarrow> 'e + 'b list" where
  "mapE f [] = Inr []"
| "mapE f (x # xs) =
     (case f x of
        Inl e \<Rightarrow> Inl e
      | Inr y \<Rightarrow> (case mapE f xs of Inl e \<Rightarrow> Inl e | Inr ys \<Rightarrow> Inr (y # ys)))"

definition unanalyzedRow :: "'n FontSizeArtifact \<Rightarrow> TableRow" where
  "unanalyzedRow fs =
     (let percentageOfUnanalyzedFailingText =
            (of_nat (failingTextLength fs) - of_nat (analyzedFailingTextLength fs) :: rat)
              / of_nat (totalTextLength fs) * 100
      in TableRow (CodeValue (''Add'' @ [CHR 0x27] @ ''l illegible text'')) (SelectorString [])
           (toFixed2 percentageOfUnanalyzedFailingText @ ''%'') ''< 12px'')"

definition legibleRow :: "'n FontSizeArtifact \<Rightarrow> TableRow" where
  "legibleRow fs =
     TableRow (CodeValue ''Legible text'') (SelectorString [])
       (toFixed2 (percentageOfPassingText fs) @ ''%'')
       ([CHR 0xE2, CHR 0x89, CHR 0xA5] @ '' 12px'')"

definition syntheticRows :: "'n FontSizeArtifact \<Rightarrow> TableRow list" where
  "syntheticRows fs =
     (if analyzedFailingTextLength fs < failingTextLength fs then [unanalyzedRow fs] else []) @
     (if percentageOfPassingText fs > 0 then [legibleRow fs] else [])"

definition auditHeadings :: "TableHeading list" where
  "auditHeadings =
     [\<lparr>key = ''source'', itemType = ''source-location'', headingText = ''Source''\<rparr>,
      \<lparr>key = ''selector'', itemType = ''code'', headingText = ''Selector''\<rparr>,
      \<lparr>key = ''coverage'', itemType = ''text'', headingText = ''% of Page Text''\<rparr>,
      \<lparr>key = ''fontSize'', itemType = ''text'', headingText = ''Font Size''\<rparr>]"

text \<open>
  The part of \<open>audit\<close> after \<open>failingRules.sort(...)\<close>: the rows of the rules, the
  synthetic rows, the score and the display value.
\<close>

definition auditReport ::
  "string \<Rightarrow> 'n FontSizeArtifact \<Rightarrow> FailingNodeData list \<Rightarrow> js_error + AuditProduct" where
  "auditReport pageUrl fs sortedRules =
     (case mapE (ruleRow pageUrl (totalTextLength fs)) sortedRules of
        Inl e \<Rightarrow> Inl e
      | Inr ruleRows \<Rightarrow>
          (let tableData = ruleRows @ syntheticRows fs;
               decimalProportion = percentageOfPassingText fs / 100;
               passed = (percentageOfPassingText fs \<ge> MINIMAL_PERCENTAGE_OF_LEGIBLE_TEXT)
           in Inr \<lparr>score = (if passed then 1 else 0),
                   notApplicable = None,
                   explanation = None,
                   details = Some (makeTableDetails auditHeadings tableData),
                   displayValue = Some (IcuMessage UIStrings_displayValue (Some decimalProportion))\<rparr>))"

text \<open>The three early returns of \<open>audit\<close>.\<close>

definition notApplicableProduct :: AuditProduct where
  "notApplicableProduct =
     \<lparr>score = 1, notApplicable = Some True, explanation = None, details = None,
      displayValue = None\<rparr>"

definition viewportProduct :: AuditProduct where
  "viewportProduct =
     \<lparr>score = 0, notApplicable = None,
      explanation = Some (IcuMessage UIStrings_explanationViewport None),
      details = None, displayValue = None\<rparr>"

definition noTextProduct :: AuditProduct where
  "noTextProduct =
     \<lparr>score = 1, notApplicable = None, explanation = None, details = None,
      displayValue = None\<rparr>"

text \<open>
  \<open>FontSize.audit\<close>. The viewport computation is the audit's one collaborator: it is a
  parameter, and its rejection leaves the audit as it is.
\<close>

definition audit ::
  "('m \<Rightarrow> js_error + bool) \<Rightarrow> ('m, FailingNodeData list) Artifacts \<Rightarrow> js_error + AuditProduct" where
  "audit computedViewportMeta artifacts =
     (if \<not> TestedAsMobileDevice artifacts then Inr notApplicableProduct
      else
        case computedViewportMeta (MetaElements artifacts) of
          Inl e \<Rightarrow> Inl e
        | Inr isMobileOptimized \<Rightarrow>
            if \<not> isMobileOptimized then Inr viewportProduct
            else if totalTextLength (FontSize artifacts) = 0 then Inr noTextProduct
            else
              auditReport (finalUrl (URL artifacts)) (FontSize artifacts)
                (sortFailingRules
                   (getUniqueFailingRules (analyzedFailingNodesData (FontSize artifacts)))))"
subsection \<open>The audit over a store\<close>

text \<open>
  The source shares objects by reference and writes to two of them: \<open>failingRule.textLength
  += textLength\<close> writes a property of a record held by the \<open>Map\<close>, and \<open>sort\<close> reorders
  the array it is called on. To tell which objects these writes reach, the failing-node
  records and the arrays of them live in a store, a list of objects addressed by
  position; a new object is appended. Nodes and CSS rules stay values inside the
  records: the source has no assignment to any of their properties. The \<open>Map\<close> and the
  table rows are locals of one call. A function over the store returns \<open>None\<close> when a
  reference does not lead to an object of the expected kind, which no JavaScript heap
  allows.
\<close>

datatype obj = FailingNodeObj FailingNodeData | ArrayObj "nat list"

type_synonym store = "obj list"

definition getFailingNode :: "store \<Rightarrow> nat \<Rightarrow> FailingNodeData option" where
  "getFailingNode h a =
     (if a < length h then (case h ! a of FailingNodeObj f \<Rightarrow> Some f | ArrayObj _ \<Rightarrow> None)
      else None)"

definition getArray :: "store \<Rightarrow> nat \<Rightarrow> nat list option" where
  "getArray h a =
     (if a < length h then (case h ! a of ArrayObj xs \<Rightarrow> Some xs | FailingNodeObj _ \<Rightarrow> None)
      else None)"

definition alloc :: "store \<Rightarrow> obj \<Rightarrow> store \<times> nat" where
  "alloc h ob = (h @ [ob], length h)"

text \<open>The records of an array of failing nodes, read through the store.\<close>

definition readFailingNodes :: "store \<Rightarrow> nat \<Rightarrow> FailingNodeData list option" where
  "readFailingNodes h arr =
     (case getArray h arr of
        None \<Rightarrow> None
      | Some refs \<Rightarrow> those (map (getFailingNode h) refs))"

text \<open>
  One iteration of the \<open>forEach\<close> of \<open>getUniqueFailingRules\<close>; the \<open>Map\<close> holds references.
\<close>

definition addFailingNode_st ::
  "store \<times> (string \<times> nat) list \<Rightarrow> nat \<Rightarrow> (store \<times> (string \<times> nat) list) option" where
  "addFailingNode_st st a =
     (case st of (h, failingRules) \<Rightarrow>
        (case getFailingNode h a of
           None \<Rightarrow> None
         | Some f \<Rightarrow>
             (let artifactId = getFontArtifactId (cssRule f) (node f) in
              case map_of failingRules artifactId of
                None \<Rightarrow>
                  (case alloc h (FailingNodeObj
                          \<lparr>node = node f, cssRule = cssRule f, fontSize = fontSize f,
                           textLength = textLength f\<rparr>) of
                     (h', r) \<Rightarrow> Some (h', AList.update artifactId r failingRules))
              | Some r \<Rightarrow>
                  (case getFailingNode h r of
                     None \<Rightarrow> None
                   | Some failingRule \<Rightarrow>
                       Some (h[r := FailingNodeObj
                                 (failingRule\<lparr>textLength := textLength failingRule + textLength f\<rparr>)],
                             failingRules)))))"

fun foldlO :: "('s \<Rightarrow> 'a \<Rightarrow> 's option) \<Rightarrow> 's \<Rightarrow> 'a list \<Rightarrow> 's option" where
  "foldlO f s [] = Some s"
| "foldlO f s (x # xs) = (case f s x of None \<Rightarrow> None | Some s' \<Rightarrow> foldlO f s' xs)"

text \<open>\<open>getUniqueFailingRules\<close>: the result is a new array of the references the \<open>Map\<close> holds.\<close>

definition getUniqueFailingRules_st :: "store \<Rightarrow> nat \<Rightarrow> (store \<times> nat) option" where
  "getUniqueFailingRules_st h fontSizeArtifact =
     (case getArray h fontSizeArtifact of
        None \<Rightarrow> None
      | Some refs \<Rightarrow>
          (case foldlO addFailingNode_st (h, []) refs of
             None \<Rightarrow> None
           | Some (h', failingRules) \<Rightarrow> Some (alloc h' (ArrayObj (map snd failingRules)))))"

text \<open>\<open>failingRules.sort(...)\<close> reorders the array at \<open>arr\<close> in place.\<close>

definition sortFailingRules_st :: "store \<Rightarrow> nat \<Rightarrow> store option" where
  "sortFailingRules_st h arr =
     (case getArray h arr of
        None \<Rightarrow> None
      | Some refs \<Rightarrow>
          (case those (map (getFailingNode h) refs) of
             None \<Rightarrow> None
           | Some rs \<Rightarrow>
               Some (h[arr := ArrayObj
                        (map fst (sort_key (\<lambda>p. - int (textLength (snd p))) (zip refs rs)))])))"

definition audit_st ::
  "('m \<Rightarrow> js_error + bool) \<Rightarrow> store \<Rightarrow> ('m, nat) Artifacts \<Rightarrow>
     (store \<times> (js_error + AuditProduct)) option" where
  "audit_st computedViewportMeta h artifacts =
     (if \<not> TestedAsMobileDevice artifacts then Some (h, Inr notApplicableProduct)
      else
        case computedViewportMeta (MetaElements artifacts) of
          Inl e \<Rightarrow> Some (h, Inl e)
        | Inr isMobileOptimized \<Rightarrow>
            if \<not> isMobileOptimized then Some (h, Inr viewportProduct)
            else if totalTextLength (FontSize artifacts) = 0 then Some (h, Inr noTextProduct)
            else
              (case getUniqueFailingRules_st h (analyzedFailingNodesData (FontSize artifacts)) of
                 None \<Rightarrow> None
               | Some (h1, failingRules) \<Rightarrow>
                   (case sortFailingRules_st h1 failingRules of
                      None \<Rightarrow> None
                    | Some h2 \<Rightarrow>
                        (case readFailingNodes h2 failingRules of
                           None \<Rightarrow> None
                         | Some sortedRules \<Rightarrow>
                             Some (h2, auditReport (finalUrl (URL artifacts)) (FontSize artifacts)
                                         sortedRules)))))"

text \<open>The artifacts with the array of failing nodes replaced by its records.\<close>

definition derefArtifacts ::
  "('m, nat) Artifacts \<Rightarrow> FailingNodeData list \<Rightarrow> ('m, FailingNodeData list) Artifacts" where
  "derefArtifacts artifacts nodes =
     \<lparr>TestedAsMobileDevice = TestedAsMobileDevice artifacts,
      MetaElements = MetaElements artifacts,
      URL = URL artifacts,
      FontSize =
        \<lparr>analyzedFailingNodesData = nodes,
         analyzedFailingTextLength = analyzedFailingTextLength (FontSize artifacts),
         failingTextLength = failingTextLength (FontSize artifacts),
         totalTextLength = totalTextLength (FontSize artifacts)\<rparr>\<rparr>"

text \<open>
  What holds of the store and the \<open>Map\<close> between two iterations, with \<open>h0\<close> the store at the
  call: the objects of \<open>h0\<close> are as they were, and the \<open>Map\<close> holds, under distinct keys,
  distinct references to records that were allocated after the call.
\<close>

definition store_inv :: "store \<Rightarrow> store \<times> (string \<times> nat) list \<Rightarrow> bool" where
  "store_inv h0 st =
     (case st of (h, m) \<Rightarrow>
        take (length h0) h = h0 \<and> distinct (map fst m) \<and> distinct (map snd m) \<and>
        (\<forall>(k, a) \<in> set m. length h0 \<le> a \<and> a < length h \<and> getFailingNode h a \<noteq> None))"

text \<open>The \<open>Map\<close> of references as the \<open>Map\<close> of the records they lead to.\<close>

definition absMap :: "store \<Rightarrow> (string \<times> nat) list \<Rightarrow> (string \<times> FailingNodeData) list" where
  "absMap h m = map (\<lambda>(k, a). (k, the (getFailingNode h a))) m"
subsection \<open>Concrete inputs and auxiliary notions\<close>

text \<open>
  A paragraph with a class attribute inside a division with an id, a rule of a stylesheet,
  a failing fragment of 300 characters, and the artifacts of a page of 1000 characters
  audited as a mobile device.
\<close>

definition exampleNode :: DomNode where
  "exampleNode =
     DomNode 7 ''P'' (Some [''Class'', '' a  b ''])
       (Some (DomNode 1 ''DIV'' (Some [''ID'', ''main'']) None))"

definition exampleRule :: CssRule where
  "exampleRule =
     \<lparr>ruleType = Regular, styleSheetId = ''s1'',
      srange = Some \<lparr>startLine = 0, startColumn = 0\<rparr>, parentRule = None, stylesheet = None\<rparr>"

definition exampleFragment :: FailingNodeData where
  "exampleFragment =
     \<lparr>node = exampleNode, cssRule = Some exampleRule, fontSize = 10, textLength = 300\<rparr>"

definition exampleArtifacts :: "(unit, FailingNodeData list) Artifacts" where
  "exampleArtifacts =
     \<lparr>TestedAsMobileDevice = True, MetaElements = (), URL = \<lparr>finalUrl = ''http://example.com/''\<rparr>,
      FontSize =
        \<lparr>analyzedFailingNodesData = [exampleFragment], analyzedFailingTextLength = 300,
         failingTextLength = 300, totalTextLength = 1000\<rparr>\<rparr>"

text \<open>The attribute array of a node, empty when the node has none.\<close>

definition attributeList :: "DomNode \<Rightarrow> string list" where
  "attributeList nd = (case attributes nd of None \<Rightarrow> [] | Some a \<Rightarrow> a)"

text \<open>
  The start line and column that \<open>getFontArtifactId\<close> reads from a rule, and whether a
  fragment has a rule of type \<open>Regular\<close>.
\<close>

definition rangeStart :: "CssRule \<Rightarrow> nat \<times> nat" where
  "rangeStart sd = (case srange sd of Some r \<Rightarrow> (startLine r, startColumn r) | None \<Rightarrow> (0, 0))"

definition hasRegularRule :: "FailingNodeData \<Rightarrow> bool" where
  "hasRegularRule f = (case cssRule f of Some sd \<Rightarrow> ruleType sd = Regular | None \<Rightarrow> False)"

text \<open>
  The artifacts of the example page when the gatherer analyzed only 100 of the 300 failing
  characters.
\<close>

definition truncatedArtifacts :: "(unit, FailingNodeData list) Artifacts" where
  "truncatedArtifacts =
     \<lparr>TestedAsMobileDevice = True, MetaElements = (), URL = \<lparr>finalUrl = ''http://example.com/''\<rparr>,
      FontSize =
        \<lparr>analyzedFailingNodesData = [exampleFragment\<lparr>textLength := 100\<rparr>],
         analyzedFailingTextLength = 100, failingTextLength = 300, totalTextLength = 1000\<rparr>\<rparr>"

text \<open>
  The example page with two analyzed fragments, of 100 characters under the rule and of
  150 characters styled by the node itself, and 50 failing characters not analyzed.
\<close>

definition mixedArtifacts :: "(unit, FailingNodeData list) Artifacts" where
  "mixedArtifacts =
     \<lparr>TestedAsMobileDevice = True, MetaElements = (), URL = \<lparr>finalUrl = ''http://example.com/''\<rparr>,
      FontSize =
        \<lparr>analyzedFailingNodesData =
           [exampleFragment\<lparr>textLength := 100\<rparr>,
            exampleFragment\<lparr>cssRule := None, textLength := 150\<rparr>],
         analyzedFailingTextLength = 250, failingTextLength = 300, totalTextLength = 1000\<rparr>\<rparr>"

text \<open>
  A store for the example page: two fragments under the same rule, of 300 and 50
  characters, and the array of the two; the artifacts refer to the array.
\<close>

definition exampleStore :: store where
  "exampleStore =
     [FailingNodeObj exampleFragment,
      FailingNodeObj (exampleFragment\<lparr>fontSize := 11, textLength := 50\<rparr>),
      ArrayObj [0, 1]]"

definition exampleStoreArtifacts :: "(unit, nat) Artifacts" where
  "exampleStoreArtifacts =
     \<lparr>TestedAsMobileDevice = True, MetaElements = (), URL = \<lparr>finalUrl = ''http://example.com/''\<rparr>,
      FontSize =
        \<lparr>analyzedFailingNodesData = 2, analyzedFailingTextLength = 350,
         failingTextLength = 350, totalTextLength = 1000\<rparr>\<rparr>"
section \<open>Properties\<close>

subsection \<open>The decision sequence of the audit\<close>

lemmas example_defs = exampleArtifacts_def exampleFragment_def exampleRule_def exampleNode_def

lemma show_nat_digit: "n < 10 \<Longrightarrow> show_nat n = [digit_char n]"
  by (subst show_nat.simps) simp

lemma show_nat_step:
  "\<not> n < 10 \<Longrightarrow> show_nat n = show_nat (n div 10) @ [digit_char (n mod 10)]"
  by (subst show_nat.simps) simp

lemmas show_nat_eval = show_nat_digit show_nat_step digit_char_def

lemma audit_full_analysis:
  assumes "TestedAsMobileDevice artifacts"
    and "computedViewportMeta (MetaElements artifacts) = Inr True"
    and "totalTextLength (FontSize artifacts) \<noteq> 0"
  shows "audit computedViewportMeta artifacts =
           auditReport (finalUrl (URL artifacts)) (FontSize artifacts)
             (sortFailingRules (getUniqueFailingRules (analyzedFailingNodesData (FontSize artifacts))))"
  using assms by (simp add: audit_def)

lemma auditReport_Inr:
  assumes "auditReport pageUrl fs sortedRules = Inr product"
  shows "\<exists>ruleRows. mapE (ruleRow pageUrl (totalTextLength fs)) sortedRules = Inr ruleRows \<and>
           product =
             \<lparr>score = (if percentageOfPassingText fs \<ge> MINIMAL_PERCENTAGE_OF_LEGIBLE_TEXT then 1 else 0),
              notApplicable = None, explanation = None,
              details = Some (makeTableDetails auditHeadings (ruleRows @ syntheticRows fs)),
              displayValue =
                Some (IcuMessage UIStrings_displayValue (Some (percentageOfPassingText fs / 100)))\<rparr>"
  using assms by (auto simp: auditReport_def Let_def split: sum.splits)

lemma audit_example:
  "\<exists>product. audit (\<lambda>_. Inr True) exampleArtifacts = Inr product"
  by (simp add: audit_def example_defs getUniqueFailingRules_def failingRulesMap_def
      addFailingNode_def getFontArtifactId_def sortFailingRules_def auditReport_def ruleRow_def
      findStyleRuleSource_def)

text \<open>
  C1. When the page was tested as a mobile device, the viewport is mobile-optimized and
  there is text, a returned product has score 1 if and only if the percentage of passing
  text is at least \<open>MINIMAL_PERCENTAGE_OF_LEGIBLE_TEXT\<close>, which is 60, and score 0
  otherwise; the percentage is \<open>(totalTextLength - failingTextLength) / totalTextLength *
  100\<close>, and the display value carries that percentage divided by 100.
\<close>

theorem audit_score_threshold:
  assumes "TestedAsMobileDevice artifacts"
    and "computedViewportMeta (MetaElements artifacts) = Inr True"
    and "totalTextLength (FontSize artifacts) \<noteq> 0"
    and "audit computedViewportMeta artifacts = Inr product"
  shows "(score product = 1 \<longleftrightarrow>
            percentageOfPassingText (FontSize artifacts) \<ge> MINIMAL_PERCENTAGE_OF_LEGIBLE_TEXT) \<and>
         (score product = 0 \<longleftrightarrow>
            \<not> percentageOfPassingText (FontSize artifacts) \<ge> MINIMAL_PERCENTAGE_OF_LEGIBLE_TEXT) \<and>
         MINIMAL_PERCENTAGE_OF_LEGIBLE_TEXT = 60 \<and>
         percentageOfPassingText (FontSize artifacts) =
           (of_nat (totalTextLength (FontSize artifacts)) - of_nat (failingTextLength (FontSize artifacts)))
             / of_nat (totalTextLength (FontSize artifacts)) * 100 \<and>
         displayValue product =
           Some (IcuMessage UIStrings_displayValue
                   (Some (percentageOfPassingText (FontSize artifacts) / 100)))"
proof -
  from assms have "auditReport (finalUrl (URL artifacts)) (FontSize artifacts)
       (sortFailingRules (getUniqueFailingRules (analyzedFailingNodesData (FontSize artifacts))))
       = Inr product"
    by (simp add: audit_full_analysis)
  from auditReport_Inr [OF this]
  have sc: "score product =
          (if percentageOfPassingText (FontSize artifacts) \<ge> MINIMAL_PERCENTAGE_OF_LEGIBLE_TEXT
           then 1 else 0)"
    and dv: "displayValue product =
           Some (IcuMessage UIStrings_displayValue
                   (Some (percentageOfPassingText (FontSize artifacts) / 100)))"
    by auto
  have c: "MINIMAL_PERCENTAGE_OF_LEGIBLE_TEXT = 60"
    by (simp add: MINIMAL_PERCENTAGE_OF_LEGIBLE_TEXT_def)
  have d: "percentageOfPassingText (FontSize artifacts) =
           (of_nat (totalTextLength (FontSize artifacts)) - of_nat (failingTextLength (FontSize artifacts)))
             / of_nat (totalTextLength (FontSize artifacts)) * 100"
    by (simp only: percentageOfPassingText_def)
  from sc dv c d show ?thesis by simp
qed

theorem audit_score_threshold_witness:
  "\<exists>product. audit (\<lambda>_. Inr True) exampleArtifacts = Inr product \<and> score product = 1 \<and>
     percentageOfPassingText (FontSize exampleArtifacts) = 70 \<and>
     displayValue product = Some (IcuMessage UIStrings_displayValue (Some (7 / 10)))"
proof -
  have pct: "percentageOfPassingText (FontSize exampleArtifacts) = 70"
    by (simp add: percentageOfPassingText_def exampleArtifacts_def)
  obtain product where p: "audit (\<lambda>_. Inr True) exampleArtifacts = Inr product"
    using audit_example by blast
  have "score product = 1 \<and>
        displayValue product = Some (IcuMessage UIStrings_displayValue (Some (7 / 10)))"
    using audit_score_threshold [of exampleArtifacts "\<lambda>_. Inr True" product] p pct
    by (simp add: exampleArtifacts_def MINIMAL_PERCENTAGE_OF_LEGIBLE_TEXT_def)
  with p pct show ?thesis by blast
qed

text \<open>
  C2. The three early returns, in order: not tested as a mobile device gives score 1,
  \<open>notApplicable\<close> true and no details; otherwise a viewport that is not mobile-optimized
  gives score 0 with the viewport explanation and no details; otherwise a total text
  length of zero gives score 1 and no details.
\<close>

theorem audit_terminal_states:
  "(\<not> TestedAsMobileDevice artifacts \<longrightarrow>
      (\<exists>product. audit computedViewportMeta artifacts = Inr product \<and> score product = 1 \<and>
         notApplicable product = Some True \<and> details product = None)) \<and>
   (TestedAsMobileDevice artifacts \<and> computedViewportMeta (MetaElements artifacts) = Inr False \<longrightarrow>
      (\<exists>product. audit computedViewportMeta artifacts = Inr product \<and> score product = 0 \<and>
         explanation product = Some (IcuMessage UIStrings_explanationViewport None) \<and>
         details product = None)) \<and>
   (TestedAsMobileDevice artifacts \<and> computedViewportMeta (MetaElements artifacts) = Inr True \<and>
    totalTextLength (FontSize artifacts) = 0 \<longrightarrow>
      (\<exists>product. audit computedViewportMeta artifacts = Inr product \<and> score product = 1 \<and>
         notApplicable product = None \<and> explanation product = None \<and> details product = None))"
  by (simp add: audit_def notApplicableProduct_def viewportProduct_def noTextProduct_def)

theorem audit_terminal_states_witness:
  "score (projr (audit (\<lambda>_. Inr True) (exampleArtifacts\<lparr>TestedAsMobileDevice := False\<rparr>))) = 1 \<and>
   notApplicable (projr (audit (\<lambda>_. Inr True) (exampleArtifacts\<lparr>TestedAsMobileDevice := False\<rparr>)))
     = Some True \<and>
   score (projr (audit (\<lambda>_. Inr False) exampleArtifacts)) = 0 \<and>
   details (projr (audit (\<lambda>_. Inr False) exampleArtifacts)) = None \<and>
   score (projr (audit (\<lambda>_. Inr True)
      (exampleArtifacts\<lparr>FontSize := (FontSize exampleArtifacts)\<lparr>totalTextLength := 0\<rparr>\<rparr>))) = 1 \<and>
   details (projr (audit (\<lambda>_. Inr True)
      (exampleArtifacts\<lparr>FontSize := (FontSize exampleArtifacts)\<lparr>totalTextLength := 0\<rparr>\<rparr>))) = None"
  using audit_terminal_states [of "exampleArtifacts\<lparr>TestedAsMobileDevice := False\<rparr>" "\<lambda>_. Inr True"]
    audit_terminal_states [of exampleArtifacts "\<lambda>_. Inr False"]
    audit_terminal_states [of
      "exampleArtifacts\<lparr>FontSize := (FontSize exampleArtifacts)\<lparr>totalTextLength := 0\<rparr>\<rparr>"
      "\<lambda>_. Inr True"]
  by (auto simp: exampleArtifacts_def)
subsection \<open>The source of a style rule\<close>

text \<open>
  The branch of \<open>findStyleRuleSource\<close> that a rule of type \<open>Regular\<close> reaches when its parent
  rule is not of the user agent.
\<close>

lemma findStyleRuleSource_Regular:
  assumes "ruleType sd = Regular"
    and "parentRule sd = None \<or> (\<exists>pr. parentRule sd = Some pr \<and> origin pr \<noteq> ''user-agent'')"
  shows "findStyleRuleSource baseURL (Some sd) nd =
     (let sel = (case parentRule sd of None \<Rightarrow> [] | Some rule \<Rightarrow> selectorsText rule) in
      if (case stylesheet sd of None \<Rightarrow> False | Some ss \<Rightarrow> sourceURL ss = []) then
        Inr \<lparr>source = CodeValue ''dynamic'', selector = SelectorString sel\<rparr>
      else
        (case (stylesheet sd, srange sd) of
           (Some ss, Some rng) \<Rightarrow>
             Inr \<lparr>source = SourceLocationValue (sourceURL ss)
                             (if hasSourceURL ss then ''comment'' else ''network'')
                             (if isInline ss \<and> \<not> hasSourceURL ss
                              then startLine rng + sheetStartLine ss else startLine rng)
                             (if isInline ss \<and> \<not> hasSourceURL ss \<and> startLine rng = 0
                              then startColumn rng + sheetStartColumn ss else startColumn rng),
                  selector = SelectorString sel\<rparr>
         | _ \<Rightarrow> Inr \<lparr>source = CodeValue ''Unknown'', selector = SelectorString sel\<rparr>))"
  using assms
  by (auto simp: findStyleRuleSource_def Let_def split: option.splits)

text \<open>
  C4. For a rule of type \<open>Regular\<close>, not of the user agent, with a range and a stylesheet
  that has a URL, the source is a source location. Its line is the range's \<open>startLine\<close>
  plus the stylesheet's \<open>startLine\<close> when the stylesheet is inline and the URL is not from a
  \<open>sourceURL\<close> comment; its column is the range's \<open>startColumn\<close>, plus the stylesheet's
  \<open>startColumn\<close> under the same condition when the range starts at line 0. With
  \<open>hasSourceURL\<close> the line and column are those of the range.
\<close>

theorem findStyleRuleSource_inline_offset:
  assumes "ruleType sd = Regular"
    and "parentRule sd = None \<or> (\<exists>pr. parentRule sd = Some pr \<and> origin pr \<noteq> ''user-agent'')"
    and "stylesheet sd = Some ss" and "sourceURL ss \<noteq> []"
    and "srange sd = Some rng"
  shows "\<exists>sel. findStyleRuleSource baseURL (Some sd) nd =
           Inr \<lparr>source = SourceLocationValue (sourceURL ss)
                   (if hasSourceURL ss then ''comment'' else ''network'')
                   (if isInline ss \<and> \<not> hasSourceURL ss
                    then startLine rng + sheetStartLine ss else startLine rng)
                   (if isInline ss \<and> \<not> hasSourceURL ss \<and> startLine rng = 0
                    then startColumn rng + sheetStartColumn ss else startColumn rng),
                selector = SelectorString sel\<rparr>"
  using assms by (simp add: findStyleRuleSource_Regular)

theorem findStyleRuleSource_inline_offset_witness:
  "(\<exists>sel. findStyleRuleSource ''http://example.com/''
       (Some \<lparr>ruleType = Regular, styleSheetId = ''s1'',
              srange = Some \<lparr>startLine = 0, startColumn = 3\<rparr>, parentRule = None,
              stylesheet = Some \<lparr>sourceURL = ''http://example.com/'', hasSourceURL = False,
                isInline = True, sheetStartLine = 5, sheetStartColumn = 2\<rparr>\<rparr>) exampleNode =
       Inr \<lparr>source = SourceLocationValue ''http://example.com/'' ''network'' 5 5,
            selector = SelectorString sel\<rparr>) \<and>
   (\<exists>sel. findStyleRuleSource ''http://example.com/''
       (Some \<lparr>ruleType = Regular, styleSheetId = ''s1'',
              srange = Some \<lparr>startLine = 1, startColumn = 3\<rparr>, parentRule = None,
              stylesheet = Some \<lparr>sourceURL = ''http://example.com/'', hasSourceURL = False,
                isInline = True, sheetStartLine = 5, sheetStartColumn = 2\<rparr>\<rparr>) exampleNode =
       Inr \<lparr>source = SourceLocationValue ''http://example.com/'' ''network'' 6 3,
            selector = SelectorString sel\<rparr>) \<and>
   (\<exists>sel. findStyleRuleSource ''http://example.com/''
       (Some \<lparr>ruleType = Regular, styleSheetId = ''s1'',
              srange = Some \<lparr>startLine = 0, startColumn = 3\<rparr>, parentRule = None,
              stylesheet = Some \<lparr>sourceURL = ''app.css'', hasSourceURL = True,
                isInline = True, sheetStartLine = 5, sheetStartColumn = 2\<rparr>\<rparr>) exampleNode =
       Inr \<lparr>source = SourceLocationValue ''app.css'' ''comment'' 0 3,
            selector = SelectorString sel\<rparr>)"
  using
    findStyleRuleSource_inline_offset [of
      "\<lparr>ruleType = Regular, styleSheetId = ''s1'',
        srange = Some \<lparr>startLine = 0, startColumn = 3\<rparr>, parentRule = None,
        stylesheet = Some \<lparr>sourceURL = ''http://example.com/'', hasSourceURL = False,
          isInline = True, sheetStartLine = 5, sheetStartColumn = 2\<rparr>\<rparr>"
      "\<lparr>sourceURL = ''http://example.com/'', hasSourceURL = False,
          isInline = True, sheetStartLine = 5, sheetStartColumn = 2\<rparr>"
      "\<lparr>startLine = 0, startColumn = 3\<rparr>" "''http://example.com/''" exampleNode]
    findStyleRuleSource_inline_offset [of
      "\<lparr>ruleType = Regular, styleSheetId = ''s1'',
        srange = Some \<lparr>startLine = 1, startColumn = 3\<rparr>, parentRule = None,
        stylesheet = Some \<lparr>sourceURL = ''http://example.com/'', hasSourceURL = False,
          isInline = True, sheetStartLine = 5, sheetStartColumn = 2\<rparr>\<rparr>"
      "\<lparr>sourceURL = ''http://example.com/'', hasSourceURL = False,
          isInline = True, sheetStartLine = 5, sheetStartColumn = 2\<rparr>"
      "\<lparr>startLine = 1, startColumn = 3\<rparr>" "''http://example.com/''" exampleNode]
    findStyleRuleSource_inline_offset [of
      "\<lparr>ruleType = Regular, styleSheetId = ''s1'',
        srange = Some \<lparr>startLine = 0, startColumn = 3\<rparr>, parentRule = None,
        stylesheet = Some \<lparr>sourceURL = ''app.css'', hasSourceURL = True,
          isInline = True, sheetStartLine = 5, sheetStartColumn = 2\<rparr>\<rparr>"
      "\<lparr>sourceURL = ''app.css'', hasSourceURL = True,
          isInline = True, sheetStartLine = 5, sheetStartColumn = 2\<rparr>"
      "\<lparr>startLine = 0, startColumn = 3\<rparr>" "''http://example.com/''" exampleNode]
  by simp

text \<open>
  C10, as stated, fails: a rule of type \<open>Regular\<close> without a stylesheet whose parent rule
  has the origin \<open>user-agent\<close> is reported as the user agent's stylesheet, by the branch
  that precedes the one for unknown sources.
\<close>

theorem findStyleRuleSource_no_stylesheet_counterexample:
  "findStyleRuleSource ''http://example.com/''
     (Some \<lparr>ruleType = Regular, styleSheetId = ''s1'', srange = None,
            parentRule = Some \<lparr>origin = ''user-agent'', selectors = [\<lparr>selText = ''small''\<rparr>]\<rparr>,
            stylesheet = None\<rparr>) exampleNode =
   Inr \<lparr>source = CodeValue ''User Agent Stylesheet'', selector = SelectorString ''small''\<rparr>"
  by (simp add: findStyleRuleSource_def selectorsText_def)

text \<open>
  C10, amended. A rule of type \<open>Regular\<close> without a stylesheet, with or without a range,
  whose parent rule is absent or has an origin other than \<open>user-agent\<close>, has the source
  \<open>Unknown\<close>; its selector is the texts of the parent rule's selectors joined by a comma
  and a space, or the empty string without a parent rule.
\<close>

theorem findStyleRuleSource_no_stylesheet:
  assumes "ruleType sd = Regular"
    and "stylesheet sd = None"
    and "parentRule sd = None \<or> (\<exists>pr. parentRule sd = Some pr \<and> origin pr \<noteq> ''user-agent'')"
  shows "findStyleRuleSource baseURL (Some sd) nd =
           Inr \<lparr>source = CodeValue ''Unknown'',
                selector = SelectorString
                  (case parentRule sd of
                     None \<Rightarrow> []
                   | Some rule \<Rightarrow> join '', '' (map selText (selectors rule)))\<rparr>"
  using assms
  by (auto simp: findStyleRuleSource_Regular selectorsText_def split: option.splits)

theorem findStyleRuleSource_no_stylesheet_witness:
  "findStyleRuleSource ''http://example.com/''
     (Some \<lparr>ruleType = Regular, styleSheetId = ''s1'',
            srange = Some \<lparr>startLine = 4, startColumn = 2\<rparr>,
            parentRule = Some \<lparr>origin = ''regular'',
              selectors = [\<lparr>selText = ''.a''\<rparr>, \<lparr>selText = ''.b''\<rparr>]\<rparr>,
            stylesheet = None\<rparr>) exampleNode =
   Inr \<lparr>source = CodeValue ''Unknown'', selector = SelectorString ''.a, .b''\<rparr>"
  using findStyleRuleSource_no_stylesheet [of
     "\<lparr>ruleType = Regular, styleSheetId = ''s1'',
       srange = Some \<lparr>startLine = 4, startColumn = 2\<rparr>,
       parentRule = Some \<lparr>origin = ''regular'',
         selectors = [\<lparr>selText = ''.a''\<rparr>, \<lparr>selText = ''.b''\<rparr>]\<rparr>,
       stylesheet = None\<rparr>" "''http://example.com/''" exampleNode]
  by simp
subsection \<open>Selector resolution\<close>

lemma getAttributeMap_loop_odd:
  "odd (length xs) \<Longrightarrow> getAttributeMap_loop m xs = Inl TypeError"
  by (induction m xs rule: getAttributeMap_loop.induct) (simp_all add: Let_def)

lemma getAttributeMap_loop_even:
  "even (length xs) \<Longrightarrow> \<exists>m'. getAttributeMap_loop m xs = Inr m'"
  by (induction m xs rule: getAttributeMap_loop.induct) (simp_all add: Let_def)

lemma getSelector_odd:
  "odd (length (attributeList nd)) \<Longrightarrow> getSelector nd = Inl TypeError"
  by (simp add: getSelector_def getAttributeMap_def attributeList_def getAttributeMap_loop_odd)

lemma getSelector_even:
  assumes "even (length (attributeList nd))"
  shows "\<exists>s. getSelector nd = Inr s"
proof -
  from assms obtain m where "getAttributeMap (attributes nd) = Inr m"
    using getAttributeMap_loop_even [of "attributeList nd" "[]"]
    by (auto simp: getAttributeMap_def attributeList_def)
  then show ?thesis
    by (simp add: getSelector_def split: option.splits)
qed

lemma nodeToTableNode_parent_odd:
  "parentNode child = Some nd \<Longrightarrow> odd (length (attributeList nd)) \<Longrightarrow>
   nodeToTableNode child = Inl TypeError"
  by (simp add: nodeToTableNode_def Let_def getSelector_odd)

lemma nodeToTableNode_parent_even:
  assumes "parentNode child = None \<or>
           (\<exists>nd. parentNode child = Some nd \<and> even (length (attributeList nd)))"
  shows "\<exists>tn. nodeToTableNode child = Inr tn"
proof (cases "parentNode child")
  case None
  then show ?thesis by (simp add: nodeToTableNode_def Let_def)
next
  case (Some nd)
  with assms have "even (length (attributeList nd))" by simp
  then obtain s where "getSelector nd = Inr s" using getSelector_even by blast
  with Some show ?thesis by (simp add: nodeToTableNode_def Let_def)
qed

lemma findStyleRuleSource_returns:
  assumes "nodeToTableNode child = Inr tn"
  shows "\<exists>r. findStyleRuleSource baseURL sd child = Inr r"
  using assms
  by (auto simp: findStyleRuleSource_def Let_def split: option.splits)

text \<open>
  C9. For a node whose attribute array has odd length, \<open>getAttributeMap\<close> throws a
  \<open>TypeError\<close>, and so do \<open>getSelector\<close> on that node and \<open>findStyleRuleSource\<close> on a child of
  that node whose style declaration is absent or of type \<open>Attributes\<close> or \<open>Inline\<close>. For a
  node whose attribute array has even length, \<open>getAttributeMap\<close> and \<open>getSelector\<close> return,
  and \<open>findStyleRuleSource\<close> returns for every child of it and every style declaration.
\<close>

theorem getSelector_total_iff_even:
  "(odd (length (attributeList nd)) \<longrightarrow>
      getAttributeMap (attributes nd) = Inl TypeError \<and>
      getSelector nd = Inl TypeError \<and>
      (parentNode child = Some nd \<and>
       (sd = None \<or> (\<exists>r. sd = Some r \<and> (ruleType r = Attributes \<or> ruleType r = Inline))) \<longrightarrow>
         findStyleRuleSource baseURL sd child = Inl TypeError)) \<and>
   (even (length (attributeList nd)) \<longrightarrow>
      (\<exists>m. getAttributeMap (attributes nd) = Inr m) \<and>
      (\<exists>s. getSelector nd = Inr s) \<and>
      (parentNode child = Some nd \<longrightarrow> (\<exists>r. findStyleRuleSource baseURL sd child = Inr r)))"
proof (intro conjI impI)
  assume odd: "odd (length (attributeList nd))"
  show "getAttributeMap (attributes nd) = Inl TypeError"
    using odd by (simp add: getAttributeMap_def attributeList_def getAttributeMap_loop_odd)
  show "getSelector nd = Inl TypeError"
    using odd by (rule getSelector_odd)
  assume c: "parentNode child = Some nd \<and>
       (sd = None \<or> (\<exists>r. sd = Some r \<and> (ruleType r = Attributes \<or> ruleType r = Inline)))"
  then have "nodeToTableNode child = Inl TypeError"
    using odd nodeToTableNode_parent_odd by blast
  with c show "findStyleRuleSource baseURL sd child = Inl TypeError"
    by (auto simp: findStyleRuleSource_def)
next
  assume even: "even (length (attributeList nd))"
  show "\<exists>m. getAttributeMap (attributes nd) = Inr m"
    using getAttributeMap_loop_even [OF even, of "[]"]
    by (simp add: getAttributeMap_def attributeList_def)
  show "\<exists>s. getSelector nd = Inr s"
    using even by (rule getSelector_even)
  assume "parentNode child = Some nd"
  with even obtain tn where "nodeToTableNode child = Inr tn"
    using nodeToTableNode_parent_even [of child] by blast
  then show "\<exists>r. findStyleRuleSource baseURL sd child = Inr r"
    by (rule findStyleRuleSource_returns)
qed

theorem getSelector_total_iff_even_witness:
  "getSelector (DomNode 3 ''SPAN'' (Some [''class'', ''note'', ''hidden'']) None) = Inl TypeError \<and>
   findStyleRuleSource ''http://example.com/'' None
     (DomNode 4 ''B'' None (Some (DomNode 3 ''SPAN'' (Some [''class'', ''note'', ''hidden'']) None)))
     = Inl TypeError \<and>
   (\<exists>s. getSelector (DomNode 1 ''DIV'' (Some [''ID'', ''main'']) None) = Inr s) \<and>
   (\<exists>r. findStyleRuleSource ''http://example.com/'' None exampleNode = Inr r)"
  using
    getSelector_total_iff_even [of "DomNode 3 ''SPAN'' (Some [''class'', ''note'', ''hidden'']) None"
      "DomNode 4 ''B'' None (Some (DomNode 3 ''SPAN'' (Some [''class'', ''note'', ''hidden'']) None))"
      None "''http://example.com/''"]
    getSelector_total_iff_even [of "DomNode 1 ''DIV'' (Some [''ID'', ''main'']) None"
      exampleNode None "''http://example.com/''"]
  by (simp add: attributeList_def exampleNode_def)
subsection \<open>Aggregation of the failing nodes\<close>

lemma failingRulesMap_snoc:
  "failingRulesMap (xs @ [x]) = addFailingNode (failingRulesMap xs) x"
  by (simp add: failingRulesMap_def)

lemma addFailingNode_keys:
  "map fst (addFailingNode m f) =
     (if artifactIdOf f \<in> set (map fst m) then map fst m else map fst m @ [artifactIdOf f])"
  by (simp add: addFailingNode_def artifactIdOf_def Let_def update_keys split: option.splits)

text \<open>The keys of the map are the artifact ids of the fragments, in the order of their first occurrence.\<close>

lemma failingRulesMap_keys:
  "map fst (failingRulesMap xs) = rev (remdups (rev (map artifactIdOf xs)))"
proof (induction xs rule: rev_induct)
  case Nil
  then show ?case by (simp add: failingRulesMap_def)
next
  case (snoc x xs)
  have "set (map fst (failingRulesMap xs)) = artifactIdOf ` set xs"
    by (simp only: snoc.IH) simp
  then show ?case
    by (simp add: failingRulesMap_snoc addFailingNode_keys snoc.IH)
qed

lemma failingRulesMap_distinct: "distinct (map fst (failingRulesMap xs))"
  by (simp add: failingRulesMap_keys)

lemma set_update_subset: "set (AList.update k v al) \<subseteq> insert (k, v) (set al)"
  by (induction al) auto

text \<open>Every record is stored under its own artifact id.\<close>

lemma addFailingNode_key_of_record:
  assumes "\<forall>(k, r) \<in> set m. artifactIdOf r = k"
  shows "\<forall>(k, r) \<in> set (addFailingNode m f). artifactIdOf r = k"
proof (cases "map_of m (artifactIdOf f)")
  case None
  then have "set (addFailingNode m f) \<subseteq>
      insert (artifactIdOf f,
              \<lparr>node = node f, cssRule = cssRule f, fontSize = fontSize f, textLength = textLength f\<rparr>)
        (set m)"
    by (simp add: addFailingNode_def artifactIdOf_def Let_def set_update_subset)
  with assms show ?thesis by (auto simp: artifactIdOf_def)
next
  case (Some r)
  then have "(artifactIdOf f, r) \<in> set m" by (rule map_of_SomeD)
  with assms have k: "artifactIdOf r = artifactIdOf f" by auto
  from Some have "set (addFailingNode m f) \<subseteq>
      insert (artifactIdOf f, r\<lparr>textLength := textLength r + textLength f\<rparr>) (set m)"
    by (simp add: addFailingNode_def artifactIdOf_def Let_def set_update_subset)
  with assms k show ?thesis by (auto simp: artifactIdOf_def)
qed

lemma failingRulesMap_key_of_record:
  "\<forall>(k, r) \<in> set (failingRulesMap xs). artifactIdOf r = k"
proof (induction xs rule: rev_induct)
  case Nil
  then show ?case by (simp add: failingRulesMap_def)
next
  case (snoc x xs)
  have "\<forall>(k, r) \<in> set (addFailingNode (failingRulesMap xs) x). artifactIdOf r = k"
    using snoc.IH by (rule addFailingNode_key_of_record)
  then show ?case by (simp only: failingRulesMap_snoc)
qed

lemma getUniqueFailingRules_ids:
  "map artifactIdOf (getUniqueFailingRules xs) = rev (remdups (rev (map artifactIdOf xs)))"
proof -
  have "map artifactIdOf (map snd (failingRulesMap xs)) = map fst (failingRulesMap xs)"
    using failingRulesMap_key_of_record [of xs] by (auto simp: map_eq_conv)
  then show ?thesis
    by (simp only: getUniqueFailingRules_def failingRulesMap_keys)
qed

text \<open>The text length stored under an artifact id, 0 when the id is not a key.\<close>

lemma addFailingNode_textLength:
  "(case map_of (addFailingNode m f) k of None \<Rightarrow> 0 | Some r \<Rightarrow> textLength r) =
   (case map_of m k of None \<Rightarrow> 0 | Some r \<Rightarrow> textLength r) +
   (if artifactIdOf f = k then textLength f else 0)"
  by (simp add: addFailingNode_def artifactIdOf_def Let_def update_conv' split: option.splits)

lemma failingRulesMap_textLength:
  "(case map_of (failingRulesMap xs) k of None \<Rightarrow> 0 | Some r \<Rightarrow> textLength r) =
   sum_list (map textLength (filter (\<lambda>f. artifactIdOf f = k) xs))"
proof (induction xs rule: rev_induct)
  case Nil
  then show ?case by (simp add: failingRulesMap_def)
next
  case (snoc x xs)
  show ?case
    by (simp only: failingRulesMap_snoc addFailingNode_textLength snoc.IH) simp
qed

lemma failingRulesMap_dom:
  "(map_of (failingRulesMap xs) k = None) = (k \<notin> artifactIdOf ` set xs)"
proof -
  have "(map_of (failingRulesMap xs) k = None) = (k \<notin> set (map fst (failingRulesMap xs)))"
    by (simp add: map_of_eq_None_iff)
  also have "\<dots> = (k \<notin> artifactIdOf ` set xs)"
    by (simp only: failingRulesMap_keys) simp
  finally show ?thesis .
qed

text \<open>The node, the rule and the font size stored under an id are those of its first fragment.\<close>

lemma addFailingNode_representative:
  "map_of (addFailingNode m f) k =
     (case map_of m k of
        Some r \<Rightarrow>
          Some (if artifactIdOf f = k then r\<lparr>textLength := textLength r + textLength f\<rparr> else r)
      | None \<Rightarrow>
          (if artifactIdOf f = k
           then Some \<lparr>node = node f, cssRule = cssRule f, fontSize = fontSize f,
                      textLength = textLength f\<rparr>
           else None))"
  by (simp add: addFailingNode_def artifactIdOf_def Let_def update_conv' split: option.splits)

lemma find_snoc:
  "find P (xs @ [x]) = (case find P xs of None \<Rightarrow> (if P x then Some x else None) | Some y \<Rightarrow> Some y)"
  by (induction xs) auto

lemma failingRulesMap_representative:
  assumes "map_of (failingRulesMap xs) k = Some r"
  shows "\<exists>f. find (\<lambda>f. artifactIdOf f = k) xs = Some f \<and>
           node r = node f \<and> cssRule r = cssRule f \<and> fontSize r = fontSize f"
  using assms
proof (induction xs arbitrary: r rule: rev_induct)
  case Nil
  then show ?case by (simp add: failingRulesMap_def)
next
  case (snoc x xs)
  show ?case
  proof (cases "map_of (failingRulesMap xs) k")
    case None
    then have nf: "find (\<lambda>f. artifactIdOf f = k) xs = None"
      by (auto simp: failingRulesMap_dom find_None_iff)
    from snoc.prems None have "artifactIdOf x = k \<and>
        r = \<lparr>node = node x, cssRule = cssRule x, fontSize = fontSize x, textLength = textLength x\<rparr>"
      by (simp add: failingRulesMap_snoc addFailingNode_representative split: if_splits)
    with nf show ?thesis by (simp add: find_snoc)
  next
    case (Some r0)
    from snoc.IH [OF Some] obtain f where
      f: "find (\<lambda>f. artifactIdOf f = k) xs = Some f" "node r0 = node f" "cssRule r0 = cssRule f"
         "fontSize r0 = fontSize f"
      by blast
    from snoc.prems Some have "node r = node r0 \<and> cssRule r = cssRule r0 \<and> fontSize r = fontSize r0"
      by (auto simp: failingRulesMap_snoc addFailingNode_representative split: if_splits)
    with f show ?thesis by (simp add: find_snoc)
  qed
qed

text \<open>The rows of one artifact id: the record stored under it, if any.\<close>

lemma filter_key_map_snd:
  assumes "distinct (map fst m)" and "\<forall>(k, r) \<in> set m. g r = k"
  shows "filter (\<lambda>r. g r = k) (map snd m) = (case map_of m k of None \<Rightarrow> [] | Some r \<Rightarrow> [r])"
  using assms
proof (induction m)
  case Nil
  then show ?case by simp
next
  case (Cons p m)
  obtain k' r' where p: "p = (k', r')" by (cases p)
  from Cons.prems p have g: "g r' = k'" and d: "k' \<notin> fst ` set m"
    and rest: "distinct (map fst m)" "\<forall>(k, r) \<in> set m. g r = k"
    by auto
  show ?case
  proof (cases "k' = k")
    case True
    with d have "map_of m k = None" by (simp add: map_of_eq_None_iff)
    with Cons.IH [OF rest] have "filter (\<lambda>r. g r = k) (map snd m) = []" by simp
    with True p g show ?thesis by simp
  next
    case False
    with p g Cons.IH [OF rest] show ?thesis by simp
  qed
qed

lemma getUniqueFailingRules_rows_of_id:
  "filter (\<lambda>r. artifactIdOf r = k) (getUniqueFailingRules xs) =
     (case map_of (failingRulesMap xs) k of None \<Rightarrow> [] | Some r \<Rightarrow> [r])"
  unfolding getUniqueFailingRules_def
  by (rule filter_key_map_snd [OF failingRulesMap_distinct failingRulesMap_key_of_record])

lemma getUniqueFailingRules_total_of_id:
  "map textLength (filter (\<lambda>r. artifactIdOf r = k) (getUniqueFailingRules xs)) =
     (if k \<in> artifactIdOf ` set xs
      then [sum_list (map textLength (filter (\<lambda>f. artifactIdOf f = k) xs))] else [])"
proof (cases "map_of (failingRulesMap xs) k")
  case None
  then show ?thesis
    using failingRulesMap_dom [of xs k] by (simp add: getUniqueFailingRules_rows_of_id)
next
  case (Some r)
  then have "k \<in> artifactIdOf ` set xs"
    using failingRulesMap_dom [of xs k] by auto
  moreover have "textLength r = sum_list (map textLength (filter (\<lambda>f. artifactIdOf f = k) xs))"
    using failingRulesMap_textLength [of xs k] Some by simp
  ultimately show ?thesis
    using Some by (simp add: getUniqueFailingRules_rows_of_id)
qed

text \<open>The text lengths of the rows add up to those of the fragments.\<close>

lemma sum_update:
  "sum_list (map (g \<circ> snd) (AList.update k v al)) + (case map_of al k of None \<Rightarrow> 0 | Some r \<Rightarrow> g r) =
   sum_list (map (g \<circ> snd) al) + (g v :: nat)"
  by (induction al) auto

lemma addFailingNode_sum:
  "sum_list (map (textLength \<circ> snd) (addFailingNode m f)) =
   sum_list (map (textLength \<circ> snd) m) + textLength f"
proof (cases "map_of m (artifactIdOf f)")
  case None
  then show ?thesis
    using sum_update [of textLength "artifactIdOf f"
        "\<lparr>node = node f, cssRule = cssRule f, fontSize = fontSize f, textLength = textLength f\<rparr>" m]
    by (simp add: addFailingNode_def artifactIdOf_def Let_def)
next
  case (Some r)
  then show ?thesis
    using sum_update [of textLength "artifactIdOf f"
        "r\<lparr>textLength := textLength r + textLength f\<rparr>" m]
    by (simp add: addFailingNode_def artifactIdOf_def Let_def)
qed

lemma getUniqueFailingRules_sum:
  "sum_list (map textLength (getUniqueFailingRules xs)) = sum_list (map textLength xs)"
proof -
  have "sum_list (map (textLength \<circ> snd) (failingRulesMap xs)) = sum_list (map textLength xs)"
  proof (induction xs rule: rev_induct)
    case Nil
    then show ?case by (simp add: failingRulesMap_def)
  next
    case (snoc x xs)
    have "sum_list (map (textLength \<circ> snd) (failingRulesMap (xs @ [x]))) =
          sum_list (map (textLength \<circ> snd) (failingRulesMap xs)) + textLength x"
      by (simp only: failingRulesMap_snoc addFailingNode_sum)
    also have "\<dots> = sum_list (map textLength xs) + textLength x"
      by (simp only: snoc.IH)
    also have "\<dots> = sum_list (map textLength (xs @ [x]))"
      by simp
    finally show ?case .
  qed
  then show ?thesis by (simp add: getUniqueFailingRules_def)
qed
subsection \<open>Artifact ids\<close>

lemma digit_char_code:
  assumes "d < 10"
  shows "(of_char (digit_char d) :: nat) = 48 + d"
proof -
  from assms have "d = 0 \<or> d = 1 \<or> d = 2 \<or> d = 3 \<or> d = 4 \<or> d = 5 \<or> d = 6 \<or> d = 7 \<or>
      d = 8 \<or> d = 9"
    by arith
  then show ?thesis
    by (elim disjE) (simp_all add: digit_char_def)
qed

lemma digit_char_inj:
  assumes "a < 10" and "b < 10" and "digit_char a = digit_char b"
  shows "a = b"
proof -
  have "(48 + a :: nat) = of_char (digit_char a)"
    using assms(1) by (simp add: digit_char_code)
  also have "\<dots> = of_char (digit_char b)"
    by (simp only: assms(3))
  also have "\<dots> = 48 + b"
    using assms(2) by (simp add: digit_char_code)
  finally show ?thesis by simp
qed

lemma digit_char_not_separator:
  "digit_char d \<noteq> CHR ''@''" "digit_char d \<noteq> CHR '':''"
  by (simp_all add: digit_char_def)

lemma show_nat_nonempty: "show_nat n \<noteq> []"
  by (subst show_nat.simps) simp

lemma show_nat_chars: "c \<in> set (show_nat n) \<Longrightarrow> \<exists>d. c = digit_char d"
proof (induction n rule: show_nat.induct)
  case (1 n)
  show ?case
  proof (cases "n < 10")
    case True
    with "1.prems" show ?thesis by (subst (asm) show_nat.simps) auto
  next
    case False
    with "1.prems" have "c \<in> set (show_nat (n div 10)) \<or> c = digit_char (n mod 10)"
      by (subst (asm) show_nat.simps) auto
    with "1.IH" [OF False] show ?thesis by blast
  qed
qed

lemma show_nat_no_at: "CHR ''@'' \<notin> set (show_nat n)"
proof
  assume "CHR ''@'' \<in> set (show_nat n)"
  then obtain d where "CHR ''@'' = digit_char d" using show_nat_chars by blast
  then show False using digit_char_not_separator(1) [of d] by simp
qed

lemma show_nat_no_colon: "CHR '':'' \<notin> set (show_nat n)"
proof
  assume "CHR '':'' \<in> set (show_nat n)"
  then obtain d where "CHR '':'' = digit_char d" using show_nat_chars by blast
  then show False using digit_char_not_separator(2) [of d] by simp
qed

lemma show_nat_inj: "show_nat n = show_nat m \<Longrightarrow> n = m"
proof (induction n arbitrary: m rule: show_nat.induct)
  case (1 n)
  show ?case
  proof (cases "n < 10")
    case n: True
    show ?thesis
    proof (cases "m < 10")
      case True
      with n "1.prems" show ?thesis
        by (simp add: show_nat.simps [of n] show_nat.simps [of m] digit_char_inj)
    next
      case False
      with n "1.prems" have "show_nat (m div 10) = []"
        by (simp add: show_nat.simps [of n] show_nat.simps [of m] Cons_eq_append_conv)
      then show ?thesis by (simp add: show_nat_nonempty)
    qed
  next
    case n: False
    show ?thesis
    proof (cases "m < 10")
      case True
      with n "1.prems" have "show_nat (n div 10) = []"
        by (simp add: show_nat.simps [of n] show_nat.simps [of m] append_eq_Cons_conv)
      then show ?thesis by (simp add: show_nat_nonempty)
    next
      case False
      with n "1.prems" have eq: "show_nat (n div 10) = show_nat (m div 10)"
        and d: "digit_char (n mod 10) = digit_char (m mod 10)"
        by (simp_all add: show_nat.simps [of n] show_nat.simps [of m])
      from "1.IH" [OF n eq] have "n div 10 = m div 10" .
      moreover from d have "n mod 10 = m mod 10" by (simp add: digit_char_inj)
      ultimately show ?thesis by (metis div_mult_mod_eq)
    qed
  qed
qed

text \<open>A string is cut in one way only at a separator that its tail does not contain.\<close>

lemma separator_unique:
  "c \<notin> set t1 \<Longrightarrow> c \<notin> set t2 \<Longrightarrow> s1 @ c # t1 = s2 @ c # t2 \<Longrightarrow> s1 = s2 \<and> t1 = t2"
proof (induction s1 arbitrary: s2)
  case Nil
  then show ?case by (cases s2) auto
next
  case (Cons a s1)
  then show ?case by (cases s2) auto
qed

lemma regular_id_inj:
  assumes "sid1 @ ''@'' @ show_nat l1 @ '':'' @ show_nat c1 =
           sid2 @ ''@'' @ show_nat l2 @ '':'' @ show_nat c2"
  shows "sid1 = sid2 \<and> l1 = l2 \<and> c1 = c2"
proof -
  have a1: "CHR ''@'' \<notin> set (show_nat l1 @ CHR '':'' # show_nat c1)"
    by (simp add: show_nat_no_at)
  have a2: "CHR ''@'' \<notin> set (show_nat l2 @ CHR '':'' # show_nat c2)"
    by (simp add: show_nat_no_at)
  have eq: "sid1 @ CHR ''@'' # (show_nat l1 @ CHR '':'' # show_nat c1) =
            sid2 @ CHR ''@'' # (show_nat l2 @ CHR '':'' # show_nat c2)"
    using assms by simp
  note st = separator_unique [OF a1 a2 eq]
  note lc = separator_unique [OF show_nat_no_colon show_nat_no_colon conjunct2 [OF st]]
  have "l1 = l2" using conjunct1 [OF lc] by (rule show_nat_inj)
  moreover have "c1 = c2" using conjunct2 [OF lc] by (rule show_nat_inj)
  ultimately show ?thesis using conjunct1 [OF st] by blast
qed

lemma artifactIdOf_Regular:
  "cssRule f = Some sd \<Longrightarrow> ruleType sd = Regular \<Longrightarrow>
   artifactIdOf f =
     styleSheetId sd @ ''@'' @ show_nat (fst (rangeStart sd)) @ '':'' @ show_nat (snd (rangeStart sd))"
  by (simp add: artifactIdOf_def getFontArtifactId_def rangeStart_def Let_def split: option.splits)

lemma artifactIdOf_node:
  "\<not> hasRegularRule f \<Longrightarrow> artifactIdOf f = ''node_'' @ show_nat (nodeId (node f))"
  by (auto simp: artifactIdOf_def getFontArtifactId_def hasRegularRule_def split: option.splits)

lemma artifactIdOf_Regular_has_at:
  "hasRegularRule f \<Longrightarrow> CHR ''@'' \<in> set (artifactIdOf f)"
  by (auto simp: artifactIdOf_def getFontArtifactId_def hasRegularRule_def Let_def
      split: option.splits)

lemma artifactIdOf_node_no_at:
  "\<not> hasRegularRule f \<Longrightarrow> CHR ''@'' \<notin> set (artifactIdOf f)"
  by (simp add: artifactIdOf_node show_nat_no_at)
subsection \<open>Claims about the aggregation\<close>

text \<open>
  C3, as stated, fails in both directions of its last sentence. Two fragments of the same
  node and stylesheet, one whose rule has the range 0:0 and one whose rule has no range,
  differ in their range and collapse into one row of 600 characters. Two fragments of
  different nodes whose rules are of type \<open>Inline\<close> with the same \<open>styleSheetId\<close> and range
  stay two rows.
\<close>

theorem getUniqueFailingRules_collapse_counterexample:
  "getUniqueFailingRules
     [exampleFragment, exampleFragment\<lparr>cssRule := Some (exampleRule\<lparr>srange := None\<rparr>)\<rparr>] =
     [exampleFragment\<lparr>textLength := 600\<rparr>] \<and>
   srange exampleRule \<noteq> srange (exampleRule\<lparr>srange := None\<rparr>) \<and>
   length (getUniqueFailingRules
     [exampleFragment\<lparr>cssRule := Some (exampleRule\<lparr>ruleType := Inline\<rparr>)\<rparr>,
      exampleFragment\<lparr>cssRule := Some (exampleRule\<lparr>ruleType := Inline\<rparr>),
                       node := DomNode 8 ''P'' None None\<rparr>]) = 2"
  by (simp add: example_defs getUniqueFailingRules_def failingRulesMap_def addFailingNode_def
      getFontArtifactId_def show_nat_eval)

text \<open>
  C3, amended. The aggregated rows are one per artifact id of the fragments, in the order
  in which the ids first occur, so two fragments collapse into one row exactly when their
  artifact ids are equal. The id of a fragment with a rule of type \<open>Regular\<close> is the
  \<open>styleSheetId\<close>, an at sign, the start line, a colon and the start column of the range,
  both 0 without a range; the id of any other fragment is \<open>node_\<close> and the \<open>nodeId\<close>. Two
  fragments with rules of type \<open>Regular\<close> have the same id exactly when the \<open>styleSheetId\<close>
  and that start line and column agree; two fragments without such a rule have the same
  id exactly when their nodes have the same \<open>nodeId\<close>; a fragment with such a rule and one
  without never have the same id.
\<close>

theorem getUniqueFailingRules_collapse:
  "map artifactIdOf (getUniqueFailingRules xs) = rev (remdups (rev (map artifactIdOf xs))) \<and>
   (length (getUniqueFailingRules [a, b]) = 1 \<longleftrightarrow> artifactIdOf a = artifactIdOf b) \<and>
   (cssRule a = Some ra \<and> ruleType ra = Regular \<longrightarrow>
      artifactIdOf a =
        styleSheetId ra @ ''@'' @ show_nat (fst (rangeStart ra)) @ '':'' @
        show_nat (snd (rangeStart ra))) \<and>
   (\<not> hasRegularRule a \<longrightarrow> artifactIdOf a = ''node_'' @ show_nat (nodeId (node a))) \<and>
   (cssRule a = Some ra \<and> ruleType ra = Regular \<and> cssRule b = Some rb \<and> ruleType rb = Regular \<longrightarrow>
      (artifactIdOf a = artifactIdOf b \<longleftrightarrow>
         styleSheetId ra = styleSheetId rb \<and> rangeStart ra = rangeStart rb)) \<and>
   (\<not> hasRegularRule a \<and> \<not> hasRegularRule b \<longrightarrow>
      (artifactIdOf a = artifactIdOf b \<longleftrightarrow> nodeId (node a) = nodeId (node b))) \<and>
   (hasRegularRule a \<and> \<not> hasRegularRule b \<longrightarrow> artifactIdOf a \<noteq> artifactIdOf b)"
proof (intro conjI impI)
  show "map artifactIdOf (getUniqueFailingRules xs) = rev (remdups (rev (map artifactIdOf xs)))"
    by (rule getUniqueFailingRules_ids)
  have "length (getUniqueFailingRules [a, b]) = length (map artifactIdOf (getUniqueFailingRules [a, b]))"
    by simp
  also have "\<dots> = length (rev (remdups (rev (map artifactIdOf [a, b]))))"
    by (simp only: getUniqueFailingRules_ids)
  finally show "length (getUniqueFailingRules [a, b]) = 1 \<longleftrightarrow> artifactIdOf a = artifactIdOf b"
    by auto
next
  assume "cssRule a = Some ra \<and> ruleType ra = Regular"
  then show "artifactIdOf a =
        styleSheetId ra @ ''@'' @ show_nat (fst (rangeStart ra)) @ '':'' @
        show_nat (snd (rangeStart ra))"
    by (simp add: artifactIdOf_Regular)
next
  assume "\<not> hasRegularRule a"
  then show "artifactIdOf a = ''node_'' @ show_nat (nodeId (node a))"
    by (rule artifactIdOf_node)
next
  assume r: "cssRule a = Some ra \<and> ruleType ra = Regular \<and> cssRule b = Some rb \<and> ruleType rb = Regular"
  then have ida: "artifactIdOf a =
        styleSheetId ra @ ''@'' @ show_nat (fst (rangeStart ra)) @ '':'' @
        show_nat (snd (rangeStart ra))"
    and idb: "artifactIdOf b =
        styleSheetId rb @ ''@'' @ show_nat (fst (rangeStart rb)) @ '':'' @
        show_nat (snd (rangeStart rb))"
    by (simp_all add: artifactIdOf_Regular)
  show "artifactIdOf a = artifactIdOf b \<longleftrightarrow>
          styleSheetId ra = styleSheetId rb \<and> rangeStart ra = rangeStart rb"
  proof
    assume "artifactIdOf a = artifactIdOf b"
    with ida idb have "styleSheetId ra @ ''@'' @ show_nat (fst (rangeStart ra)) @ '':'' @
        show_nat (snd (rangeStart ra)) =
        styleSheetId rb @ ''@'' @ show_nat (fst (rangeStart rb)) @ '':'' @
        show_nat (snd (rangeStart rb))"
      by (simp only:)
    from regular_id_inj [OF this]
    show "styleSheetId ra = styleSheetId rb \<and> rangeStart ra = rangeStart rb"
      by (simp add: prod_eq_iff)
  next
    assume "styleSheetId ra = styleSheetId rb \<and> rangeStart ra = rangeStart rb"
    with ida idb show "artifactIdOf a = artifactIdOf b" by (simp only:)
  qed
next
  assume n: "\<not> hasRegularRule a \<and> \<not> hasRegularRule b"
  then have "artifactIdOf a = ''node_'' @ show_nat (nodeId (node a))"
    and "artifactIdOf b = ''node_'' @ show_nat (nodeId (node b))"
    by (simp_all add: artifactIdOf_node)
  then show "artifactIdOf a = artifactIdOf b \<longleftrightarrow> nodeId (node a) = nodeId (node b)"
    using show_nat_inj by auto
next
  assume "hasRegularRule a \<and> \<not> hasRegularRule b"
  then have "CHR ''@'' \<in> set (artifactIdOf a)" and "CHR ''@'' \<notin> set (artifactIdOf b)"
    by (simp_all add: artifactIdOf_Regular_has_at artifactIdOf_node_no_at)
  then show "artifactIdOf a \<noteq> artifactIdOf b" by auto
qed

theorem getUniqueFailingRules_collapse_witness:
  "length (getUniqueFailingRules [exampleFragment, exampleFragment\<lparr>fontSize := 11\<rparr>]) = 1 \<and>
   artifactIdOf exampleFragment = ''s1@0:0'' \<and>
   artifactIdOf (exampleFragment\<lparr>cssRule := None\<rparr>) = ''node_7'' \<and>
   artifactIdOf exampleFragment \<noteq>
     artifactIdOf (exampleFragment\<lparr>cssRule := Some (exampleRule\<lparr>styleSheetId := ''s2''\<rparr>)\<rparr>) \<and>
   artifactIdOf (exampleFragment\<lparr>cssRule := None\<rparr>) =
     artifactIdOf (exampleFragment\<lparr>cssRule := None, fontSize := 9\<rparr>) \<and>
   artifactIdOf exampleFragment \<noteq> artifactIdOf (exampleFragment\<lparr>cssRule := None\<rparr>)"
  using
    getUniqueFailingRules_collapse [of "[]" exampleFragment "exampleFragment\<lparr>fontSize := 11\<rparr>"
      exampleRule exampleRule]
    getUniqueFailingRules_collapse [of "[]" exampleFragment
      "exampleFragment\<lparr>cssRule := Some (exampleRule\<lparr>styleSheetId := ''s2''\<rparr>)\<rparr>"
      exampleRule "exampleRule\<lparr>styleSheetId := ''s2''\<rparr>"]
    getUniqueFailingRules_collapse [of "[]" "exampleFragment\<lparr>cssRule := None\<rparr>"
      "exampleFragment\<lparr>cssRule := None, fontSize := 9\<rparr>" exampleRule exampleRule]
    getUniqueFailingRules_collapse [of "[]" exampleFragment "exampleFragment\<lparr>cssRule := None\<rparr>"
      exampleRule exampleRule]
  by (simp add: example_defs hasRegularRule_def rangeStart_def artifactIdOf_def
      getFontArtifactId_def show_nat_eval)

text \<open>
  C6, as stated, fails: when the gatherer analyzed 100 of 300 failing characters of a page
  of 1000, the rows add up to 100, and with the 700 passing characters that is 800.
\<close>

theorem aggregated_sum_counterexample:
  "sum_list (map textLength
      (getUniqueFailingRules (analyzedFailingNodesData (FontSize truncatedArtifacts)))) +
   (totalTextLength (FontSize truncatedArtifacts) - failingTextLength (FontSize truncatedArtifacts))
   \<noteq> totalTextLength (FontSize truncatedArtifacts)"
  by (simp add: truncatedArtifacts_def example_defs getUniqueFailingRules_def failingRulesMap_def
      addFailingNode_def)

text \<open>
  C6, amended. The text lengths of the aggregated rows add up to the text lengths of the
  input fragments. So for every sequence of fragments whose text lengths add up to
  \<open>failingTextLength\<close>, the sum over the aggregated rows plus the passing text length
  \<open>totalTextLength - failingTextLength\<close> is \<open>totalTextLength\<close>.
\<close>

theorem aggregated_sum:
  "sum_list (map textLength (getUniqueFailingRules xs)) = sum_list (map textLength xs) \<and>
   (sum_list (map textLength xs) = failingTextLength fs \<longrightarrow>
      int (sum_list (map textLength (getUniqueFailingRules xs))) +
        (int (totalTextLength fs) - int (failingTextLength fs)) = int (totalTextLength fs))"
  by (simp add: getUniqueFailingRules_sum)

theorem aggregated_sum_witness:
  "sum_list (map textLength
      (getUniqueFailingRules (analyzedFailingNodesData (FontSize exampleArtifacts)))) = 300 \<and>
   int (sum_list (map textLength
      (getUniqueFailingRules (analyzedFailingNodesData (FontSize exampleArtifacts))))) +
     (int (totalTextLength (FontSize exampleArtifacts)) -
      int (failingTextLength (FontSize exampleArtifacts))) = 1000"
  using aggregated_sum [of "analyzedFailingNodesData (FontSize exampleArtifacts)"
      "FontSize exampleArtifacts"]
  by (simp add: example_defs)

lemma sum_list_filter_mset:
  assumes "mset xs = mset ys"
  shows "sum_list (map f (filter P xs)) = (sum_list (map f (filter P ys)) :: nat)"
proof -
  have "mset (map f (filter P xs)) = mset (map f (filter P ys))"
    using assms by (simp only: mset_map mset_filter)
  then show ?thesis by (metis sum_mset_sum_list)
qed

lemma getUniqueFailingRules_representative:
  assumes "r \<in> set (getUniqueFailingRules xs)"
  shows "\<exists>f. find (\<lambda>f. artifactIdOf f = artifactIdOf r) xs = Some f \<and>
          node r = node f \<and> cssRule r = cssRule f \<and> fontSize r = fontSize f"
proof -
  from assms obtain k where kr: "(k, r) \<in> set (failingRulesMap xs)"
    by (auto simp: getUniqueFailingRules_def)
  with failingRulesMap_key_of_record [of xs] have k: "artifactIdOf r = k" by auto
  from kr have "map_of (failingRulesMap xs) k = Some r"
    using failingRulesMap_distinct by (simp add: map_of_is_SomeI)
  from failingRulesMap_representative [OF this] k show ?thesis by simp
qed

text \<open>
  C7. For two input sequences that are permutations of each other, the aggregated rows of
  every artifact id carry the same text length. The node, the rule and the font size of a
  row are those of the first fragment of the input with the row's artifact id, and they
  depend on the order: of two fragments with one id and the font sizes 10 and 11, the one
  that comes first gives the row its font size.
\<close>

theorem getUniqueFailingRules_order:
  "(mset xs = mset ys \<longrightarrow>
      map textLength (filter (\<lambda>r. artifactIdOf r = k) (getUniqueFailingRules xs)) =
      map textLength (filter (\<lambda>r. artifactIdOf r = k) (getUniqueFailingRules ys))) \<and>
   (\<forall>r \<in> set (getUniqueFailingRules xs).
      \<exists>f. find (\<lambda>f. artifactIdOf f = artifactIdOf r) xs = Some f \<and>
          node r = node f \<and> cssRule r = cssRule f \<and> fontSize r = fontSize f) \<and>
   map fontSize (getUniqueFailingRules [exampleFragment, exampleFragment\<lparr>fontSize := 11\<rparr>]) = [10] \<and>
   map fontSize (getUniqueFailingRules [exampleFragment\<lparr>fontSize := 11\<rparr>, exampleFragment]) = [11]"
proof (intro conjI impI ballI)
  assume p: "mset xs = mset ys"
  then have "set xs = set ys" by (rule mset_eq_setD)
  with sum_list_filter_mset [OF p]
  show "map textLength (filter (\<lambda>r. artifactIdOf r = k) (getUniqueFailingRules xs)) =
      map textLength (filter (\<lambda>r. artifactIdOf r = k) (getUniqueFailingRules ys))"
    by (simp add: getUniqueFailingRules_total_of_id)
next
  fix r assume "r \<in> set (getUniqueFailingRules xs)"
  then show "\<exists>f. find (\<lambda>f. artifactIdOf f = artifactIdOf r) xs = Some f \<and>
          node r = node f \<and> cssRule r = cssRule f \<and> fontSize r = fontSize f"
    by (rule getUniqueFailingRules_representative)
next
  show "map fontSize (getUniqueFailingRules [exampleFragment, exampleFragment\<lparr>fontSize := 11\<rparr>]) = [10]"
    by (simp add: example_defs getUniqueFailingRules_def failingRulesMap_def addFailingNode_def)
  show "map fontSize (getUniqueFailingRules [exampleFragment\<lparr>fontSize := 11\<rparr>, exampleFragment]) = [11]"
    by (simp add: example_defs getUniqueFailingRules_def failingRulesMap_def addFailingNode_def)
qed

theorem getUniqueFailingRules_order_witness:
  "map textLength (filter (\<lambda>r. artifactIdOf r = ''s1@0:0'')
      (getUniqueFailingRules
         [exampleFragment, exampleFragment\<lparr>cssRule := None\<rparr>, exampleFragment\<lparr>fontSize := 11\<rparr>])) =
   map textLength (filter (\<lambda>r. artifactIdOf r = ''s1@0:0'')
      (getUniqueFailingRules
         [exampleFragment\<lparr>fontSize := 11\<rparr>, exampleFragment\<lparr>cssRule := None\<rparr>, exampleFragment])) \<and>
   (\<exists>f. find (\<lambda>f. artifactIdOf f = ''s1@0:0'')
           [exampleFragment\<lparr>fontSize := 11\<rparr>, exampleFragment] = Some f \<and> fontSize f = 11)"
  using getUniqueFailingRules_order [of
      "[exampleFragment, exampleFragment\<lparr>cssRule := None\<rparr>, exampleFragment\<lparr>fontSize := 11\<rparr>]"
      "[exampleFragment\<lparr>fontSize := 11\<rparr>, exampleFragment\<lparr>cssRule := None\<rparr>, exampleFragment]"
      "''s1@0:0''"]
  by (simp add: example_defs artifactIdOf_def getFontArtifactId_def show_nat_eval)
subsection \<open>The rows of the report\<close>

lemma mapE_Inr:
  "mapE f xs = Inr ys \<Longrightarrow> list_all2 (\<lambda>x y. f x = Inr y) xs ys"
  by (induction xs arbitrary: ys) (auto split: sum.splits)

lemma sortFailingRules_sorted:
  "sorted_wrt (\<lambda>a b. textLength a \<ge> textLength b) (sortFailingRules rs)"
proof -
  have "sorted (map (\<lambda>r. - int (textLength r)) (sortFailingRules rs))"
    unfolding sortFailingRules_def by (rule sorted_sort_key)
  then show ?thesis by (simp add: sorted_map)
qed

lemma sortFailingRules_mset: "mset (sortFailingRules rs) = mset rs"
  by (simp add: sortFailingRules_def)

lemma sortFailingRules_stable:
  "filter (\<lambda>r. textLength r = n) (sortFailingRules rs) = filter (\<lambda>r. textLength r = n) rs"
proof -
  have "filter (\<lambda>r. - int (textLength r) = - int n) (sortFailingRules rs) =
        filter (\<lambda>r. - int (textLength r) = - int n) rs"
    unfolding sortFailingRules_def by (rule sort_key_stable)
  then show ?thesis by simp
qed

lemma mapE_returns:
  "(\<forall>x \<in> set xs. \<exists>y. f x = Inr y) \<Longrightarrow> \<exists>ys. mapE f xs = Inr ys"
  by (induction xs) auto

lemma ruleRow_returns:
  assumes "nodeToTableNode (node r) = Inr tn"
  shows "\<exists>row. ruleRow pageUrl totalLen r = Inr row"
proof -
  from findStyleRuleSource_returns [OF assms]
  obtain orig where "findStyleRuleSource pageUrl (cssRule r) (node r) = Inr orig" by blast
  then show ?thesis by (simp add: ruleRow_def)
qed

text \<open>
  The audit returns a product when the viewport computation does and the parent of every
  failing node, if there is one, has an attribute array of even length.
\<close>

lemma audit_returns:
  assumes "computedViewportMeta (MetaElements artifacts) = Inr b"
    and "\<forall>f \<in> set (analyzedFailingNodesData (FontSize artifacts)).
           parentNode (node f) = None \<or>
           (\<exists>p. parentNode (node f) = Some p \<and> even (length (attributeList p)))"
  shows "\<exists>product. audit computedViewportMeta artifacts = Inr product"
proof -
  let ?nodes = "analyzedFailingNodesData (FontSize artifacts)"
  let ?sorted = "sortFailingRules (getUniqueFailingRules ?nodes)"
  have "\<forall>r \<in> set ?sorted.
          \<exists>row. ruleRow (finalUrl (URL artifacts)) (totalTextLength (FontSize artifacts)) r = Inr row"
  proof
    fix r assume "r \<in> set ?sorted"
    then have "r \<in> set (getUniqueFailingRules ?nodes)"
      using sortFailingRules_mset [of "getUniqueFailingRules ?nodes"] by (metis mset_eq_setD)
    from getUniqueFailingRules_representative [OF this]
    obtain f where "find (\<lambda>f. artifactIdOf f = artifactIdOf r) ?nodes = Some f" "node r = node f"
      by blast
    then have "f \<in> set ?nodes" and n: "node r = node f"
      by (auto simp: find_Some_iff)
    with assms(2) have "parentNode (node r) = None \<or>
        (\<exists>p. parentNode (node r) = Some p \<and> even (length (attributeList p)))"
      by auto
    from nodeToTableNode_parent_even [OF this]
    obtain tn where "nodeToTableNode (node r) = Inr tn" by blast
    then show "\<exists>row. ruleRow (finalUrl (URL artifacts)) (totalTextLength (FontSize artifacts)) r
        = Inr row"
      by (rule ruleRow_returns)
  qed
  from mapE_returns [OF this]
  obtain ruleRows where
    "mapE (ruleRow (finalUrl (URL artifacts)) (totalTextLength (FontSize artifacts))) ?sorted
       = Inr ruleRows"
    by blast
  then have "\<exists>product. auditReport (finalUrl (URL artifacts)) (FontSize artifacts) ?sorted
      = Inr product"
    by (simp add: auditReport_def Let_def)
  with assms(1) show ?thesis
    by (auto simp: audit_def)
qed

text \<open>
  C5. In a report of the full analysis the rows are those of the aggregated rules,
  followed by the synthetic rows. The rows of the rules follow the aggregated rules
  ordered by descending \<open>textLength\<close>, rules of equal \<open>textLength\<close> staying in the order of
  the aggregation. The synthetic rows are the row \<open>Add'l illegible text\<close>, present exactly
  when \<open>analyzedFailingTextLength < failingTextLength\<close>, and then the row \<open>Legible text\<close>,
  present exactly when the percentage of passing text is positive.
\<close>

theorem audit_rows_order:
  assumes "TestedAsMobileDevice artifacts"
    and "computedViewportMeta (MetaElements artifacts) = Inr True"
    and "totalTextLength (FontSize artifacts) \<noteq> 0"
    and "audit computedViewportMeta artifacts = Inr product"
  shows "\<exists>ruleRows.
     details product =
       Some (makeTableDetails auditHeadings (ruleRows @ syntheticRows (FontSize artifacts))) \<and>
     list_all2
       (\<lambda>r row. ruleRow (finalUrl (URL artifacts)) (totalTextLength (FontSize artifacts)) r = Inr row)
       (sortFailingRules (getUniqueFailingRules (analyzedFailingNodesData (FontSize artifacts))))
       ruleRows \<and>
     sorted_wrt (\<lambda>a b. textLength a \<ge> textLength b)
       (sortFailingRules (getUniqueFailingRules (analyzedFailingNodesData (FontSize artifacts)))) \<and>
     mset (sortFailingRules (getUniqueFailingRules (analyzedFailingNodesData (FontSize artifacts)))) =
       mset (getUniqueFailingRules (analyzedFailingNodesData (FontSize artifacts))) \<and>
     (\<forall>n. filter (\<lambda>r. textLength r = n)
            (sortFailingRules (getUniqueFailingRules (analyzedFailingNodesData (FontSize artifacts)))) =
          filter (\<lambda>r. textLength r = n)
            (getUniqueFailingRules (analyzedFailingNodesData (FontSize artifacts)))) \<and>
     syntheticRows (FontSize artifacts) =
       (if analyzedFailingTextLength (FontSize artifacts) < failingTextLength (FontSize artifacts)
        then [unanalyzedRow (FontSize artifacts)] else []) @
       (if percentageOfPassingText (FontSize artifacts) > 0
        then [legibleRow (FontSize artifacts)] else []) \<and>
     rowSource (unanalyzedRow (FontSize artifacts)) =
       CodeValue (''Add'' @ [CHR 0x27] @ ''l illegible text'') \<and>
     rowSource (legibleRow (FontSize artifacts)) = CodeValue ''Legible text''"
proof -
  let ?sorted = "sortFailingRules (getUniqueFailingRules (analyzedFailingNodesData (FontSize artifacts)))"
  from assms have "auditReport (finalUrl (URL artifacts)) (FontSize artifacts) ?sorted = Inr product"
    by (simp add: audit_full_analysis)
  from auditReport_Inr [OF this] obtain ruleRows where
    m: "mapE (ruleRow (finalUrl (URL artifacts)) (totalTextLength (FontSize artifacts))) ?sorted
          = Inr ruleRows"
    and d: "details product =
       Some (makeTableDetails auditHeadings (ruleRows @ syntheticRows (FontSize artifacts)))"
    by auto
  have s: "rowSource (unanalyzedRow (FontSize artifacts)) =
       CodeValue (''Add'' @ [CHR 0x27] @ ''l illegible text'')"
    by (simp add: unanalyzedRow_def Let_def)
  have l: "rowSource (legibleRow (FontSize artifacts)) = CodeValue ''Legible text''"
    by (simp add: legibleRow_def)
  have y: "syntheticRows (FontSize artifacts) =
       (if analyzedFailingTextLength (FontSize artifacts) < failingTextLength (FontSize artifacts)
        then [unanalyzedRow (FontSize artifacts)] else []) @
       (if percentageOfPassingText (FontSize artifacts) > 0
        then [legibleRow (FontSize artifacts)] else [])"
    by (simp only: syntheticRows_def)
  from d mapE_Inr [OF m] sortFailingRules_sorted [of "getUniqueFailingRules
        (analyzedFailingNodesData (FontSize artifacts))"]
    sortFailingRules_mset sortFailingRules_stable y s l
  show ?thesis by blast
qed

theorem audit_rows_order_witness:
  "\<exists>product ruleRows.
     audit (\<lambda>_. Inr True) mixedArtifacts = Inr product \<and>
     details product =
       Some (makeTableDetails auditHeadings
          (ruleRows @ [unanalyzedRow (FontSize mixedArtifacts), legibleRow (FontSize mixedArtifacts)])) \<and>
     length ruleRows = 2 \<and>
     map textLength
       (sortFailingRules (getUniqueFailingRules (analyzedFailingNodesData (FontSize mixedArtifacts))))
       = [150, 100]"
proof -
  have ev: "\<forall>f \<in> set (analyzedFailingNodesData (FontSize mixedArtifacts)).
           parentNode (node f) = None \<or>
           (\<exists>p. parentNode (node f) = Some p \<and> even (length (attributeList p)))"
    by (simp add: mixedArtifacts_def example_defs attributeList_def)
  obtain product where p: "audit (\<lambda>_. Inr True) mixedArtifacts = Inr product"
    using audit_returns [of "\<lambda>_. Inr True" mixedArtifacts True, OF _ ev] by auto
  have t: "map textLength
       (sortFailingRules (getUniqueFailingRules (analyzedFailingNodesData (FontSize mixedArtifacts))))
       = [150, 100]"
    by (simp add: mixedArtifacts_def example_defs getUniqueFailingRules_def failingRulesMap_def
        addFailingNode_def getFontArtifactId_def show_nat_eval sortFailingRules_def)
  have y: "syntheticRows (FontSize mixedArtifacts) =
      [unanalyzedRow (FontSize mixedArtifacts), legibleRow (FontSize mixedArtifacts)]"
    by (simp add: syntheticRows_def percentageOfPassingText_def mixedArtifacts_def)
  from audit_rows_order [of mixedArtifacts "\<lambda>_. Inr True" product] p
  obtain ruleRows where
    d: "details product =
       Some (makeTableDetails auditHeadings (ruleRows @ syntheticRows (FontSize mixedArtifacts)))"
    and a: "list_all2
       (\<lambda>r row. ruleRow (finalUrl (URL mixedArtifacts)) (totalTextLength (FontSize mixedArtifacts)) r
          = Inr row)
       (sortFailingRules (getUniqueFailingRules (analyzedFailingNodesData (FontSize mixedArtifacts))))
       ruleRows"
    by (auto simp: mixedArtifacts_def)
  from a have "length ruleRows =
      length (map textLength (sortFailingRules
         (getUniqueFailingRules (analyzedFailingNodesData (FontSize mixedArtifacts)))))"
    by (simp add: list_all2_lengthD)
  with t have "length ruleRows = 2" by simp
  with p d y t show ?thesis by auto
qed
subsection \<open>The audit and the store\<close>

lemma update_absent: "k \<notin> fst ` set al \<Longrightarrow> AList.update k v al = al @ [(k, v)]"
  by (induction al) auto

lemma getFailingNode_frame:
  assumes "take (length h0) h = h0" and "a < length h0"
  shows "getFailingNode h a = getFailingNode h0 a"
proof -
  have "length h0 = length (take (length h0) h)"
    by (simp only: assms(1))
  then have l: "length h0 \<le> length h" by simp
  have "take (length h0) h ! a = h ! a"
    using assms(2) by simp
  then have "h ! a = h0 ! a" by (simp only: assms(1))
  with l assms(2) show ?thesis by (simp add: getFailingNode_def)
qed

lemma getFailingNode_Some_less: "getFailingNode h a = Some f \<Longrightarrow> a < length h"
  by (simp add: getFailingNode_def split: if_splits)

lemma getFailingNode_append:
  "a < length h \<Longrightarrow> getFailingNode (h @ [ob]) a = getFailingNode h a"
  by (simp add: getFailingNode_def nth_append)

lemma getFailingNode_new:
  "getFailingNode (h @ [FailingNodeObj r]) (length h) = Some r"
  by (simp add: getFailingNode_def)

lemma getFailingNode_update:
  "r < length h \<Longrightarrow>
   getFailingNode (h[r := FailingNodeObj v]) a = (if a = r then Some v else getFailingNode h a)"
  by (simp add: getFailingNode_def)

lemma absMap_keys: "map fst (absMap h m) = map fst m"
  by (induction m) (auto simp: absMap_def)

lemma absMap_map_of:
  "map_of (absMap h m) k = map_option (\<lambda>a. the (getFailingNode h a)) (map_of m k)"
  by (induction m) (auto simp: absMap_def)

lemma absMap_cong:
  "(\<forall>(k, a) \<in> set m. getFailingNode h' a = getFailingNode h a) \<Longrightarrow> absMap h' m = absMap h m"
  by (induction m) (auto simp: absMap_def)

lemma absMap_update_store:
  assumes "distinct (map fst m)" and "distinct (map snd m)" and "(k, r) \<in> set m"
    and "r < length h"
  shows "absMap (h[r := FailingNodeObj v]) m = AList.update k v (absMap h m)"
  using assms
proof (induction m)
  case Nil
  then show ?case by simp
next
  case (Cons p m)
  obtain k' a' where p: "p = (k', a')" by (cases p)
  show ?case
  proof (cases "k' = k")
    case True
    with Cons.prems p have "a' = r"
      by force
    moreover have "absMap (h[r := FailingNodeObj v]) m = absMap h m"
    proof (rule absMap_cong, clarify)
      fix k2 a2 assume "(k2, a2) \<in> set m"
      with Cons.prems(2) p \<open>a' = r\<close> have "a2 \<noteq> r"
        by force
      with Cons.prems(4)
      show "getFailingNode (h[r := FailingNodeObj v]) a2 = getFailingNode h a2"
        by (simp add: getFailingNode_update)
    qed
    ultimately show ?thesis
      using True p Cons.prems(4) by (simp add: absMap_def getFailingNode_update)
  next
    case False
    with Cons.prems p have in_m: "(k, r) \<in> set m" by auto
    with Cons.prems(2) p have "a' \<noteq> r"
      by force
    moreover from Cons.prems have "distinct (map fst m)" "distinct (map snd m)" by simp_all
    note Cons.IH [OF this in_m Cons.prems(4)]
    ultimately show ?thesis
      using False p Cons.prems(4) by (simp add: absMap_def getFailingNode_update)
  qed
qed

text \<open>
  One iteration over the store: it is defined, it keeps the invariant, and on the records
  it is the iteration of \<open>getUniqueFailingRules\<close>.
\<close>

lemma addFailingNode_st_step:
  assumes inv: "store_inv h0 (h, m)" and a: "getFailingNode h0 a = Some f"
  shows "\<exists>h' m'. addFailingNode_st (h, m) a = Some (h', m') \<and> store_inv h0 (h', m') \<and>
           absMap h' m' = addFailingNode (absMap h m) f"
proof -
  from inv have fr: "take (length h0) h = h0"
    and dk: "distinct (map fst m)" and da: "distinct (map snd m)"
    and en: "\<forall>(k, a) \<in> set m. length h0 \<le> a \<and> a < length h \<and> getFailingNode h a \<noteq> None"
    by (simp_all add: store_inv_def)
  have "length h0 = length (take (length h0) h)" by (simp only: fr)
  then have le: "length h0 \<le> length h" by simp
  from a have "a < length h0" by (rule getFailingNode_Some_less)
  with fr a have ha: "getFailingNode h a = Some f"
    by (simp add: getFailingNode_frame)
  let ?k = "getFontArtifactId (cssRule f) (node f)"
  show ?thesis
  proof (cases "map_of m ?k")
    case None
    let ?rec = "\<lparr>node = node f, cssRule = cssRule f, fontSize = fontSize f,
                 textLength = textLength f\<rparr>"
    let ?h' = "h @ [FailingNodeObj ?rec]"
    let ?m' = "AList.update ?k (length h) m"
    from None have nk: "?k \<notin> fst ` set m" by (simp add: map_of_eq_None_iff)
    then have m': "?m' = m @ [(?k, length h)]" by (rule update_absent)
    have step: "addFailingNode_st (h, m) a = Some (?h', ?m')"
      using ha None by (simp add: addFailingNode_st_def alloc_def Let_def)
    have old: "\<forall>(k, a) \<in> set m. getFailingNode ?h' a = getFailingNode h a"
      using en by (auto simp: getFailingNode_append)
    have "take (length h0) ?h' = h0" using fr le by simp
    moreover have "distinct (map fst ?m')" using dk by (rule distinct_update)
    moreover have "distinct (map snd ?m')"
      using da en by (auto simp: m')
    moreover have "\<forall>(k, a) \<in> set ?m'. length h0 \<le> a \<and> a < length ?h' \<and>
        getFailingNode ?h' a \<noteq> None"
      using en le by (fastforce simp: m' getFailingNode_new getFailingNode_append)
    ultimately have inv': "store_inv h0 (?h', ?m')" by (simp add: store_inv_def)
    have "map_of (absMap h m) ?k = None"
      using None by (simp add: absMap_map_of)
    then have pure: "addFailingNode (absMap h m) f = AList.update ?k ?rec (absMap h m)"
      by (simp add: addFailingNode_def Let_def)
    have "?k \<notin> fst ` set (absMap h m)"
      using nk absMap_keys [of h m] by (metis list.set_map)
    then have "AList.update ?k ?rec (absMap h m) = absMap h m @ [(?k, ?rec)]"
      by (rule update_absent)
    moreover have "absMap ?h' ?m' = absMap ?h' m @ [(?k, ?rec)]"
      by (simp add: m' absMap_def getFailingNode_new)
    moreover have "absMap ?h' m = absMap h m"
      using old by (rule absMap_cong)
    ultimately have "absMap ?h' ?m' = addFailingNode (absMap h m) f"
      using pure by simp
    with step inv' show ?thesis by blast
  next
    case (Some r)
    then have kr: "(?k, r) \<in> set m" by (rule map_of_SomeD)
    with en have r: "length h0 \<le> r" "r < length h" "getFailingNode h r \<noteq> None" by auto
    then obtain failingRule where frl: "getFailingNode h r = Some failingRule" by auto
    let ?v = "failingRule\<lparr>textLength := textLength failingRule + textLength f\<rparr>"
    let ?h' = "h[r := FailingNodeObj ?v]"
    have step: "addFailingNode_st (h, m) a = Some (?h', m)"
      using ha Some frl by (simp add: addFailingNode_st_def Let_def)
    have "take (length h0) ?h' = h0" using fr r(1) by simp
    moreover have "\<forall>(k, a) \<in> set m. length h0 \<le> a \<and> a < length ?h' \<and>
        getFailingNode ?h' a \<noteq> None"
      using en r(2) by (auto simp: getFailingNode_update)
    ultimately have inv': "store_inv h0 (?h', m)"
      using dk da by (simp add: store_inv_def)
    have "map_of (absMap h m) ?k = Some failingRule"
      using Some frl by (simp add: absMap_map_of)
    then have pure: "addFailingNode (absMap h m) f = AList.update ?k ?v (absMap h m)"
      by (simp add: addFailingNode_def Let_def)
    have "absMap ?h' m = AList.update ?k ?v (absMap h m)"
      using dk da kr r(2) by (rule absMap_update_store)
    with pure have "absMap ?h' m = addFailingNode (absMap h m) f" by simp
    with step inv' show ?thesis by blast
  qed
qed

lemma foldlO_addFailingNode_st:
  assumes "store_inv h0 (h, m)"
    and "list_all2 (\<lambda>a f. getFailingNode h0 a = Some f) refs fs"
  shows "\<exists>h' m'. foldlO addFailingNode_st (h, m) refs = Some (h', m') \<and> store_inv h0 (h', m') \<and>
           absMap h' m' = foldl addFailingNode (absMap h m) fs"
  using assms(2) assms(1)
proof (induction refs fs arbitrary: h m rule: list_all2_induct)
  case Nil
  then show ?case by simp
next
  case (Cons a refs f fs)
  from addFailingNode_st_step [OF Cons.prems Cons.hyps(1)]
  obtain h1 m1 where s: "addFailingNode_st (h, m) a = Some (h1, m1)"
    and i: "store_inv h0 (h1, m1)"
    and e: "absMap h1 m1 = addFailingNode (absMap h m) f"
    by blast
  from Cons.IH [OF i] obtain h' m' where
    "foldlO addFailingNode_st (h1, m1) refs = Some (h', m')" "store_inv h0 (h', m')"
    "absMap h' m' = foldl addFailingNode (absMap h1 m1) fs"
    by blast
  with s e show ?case by simp
qed

lemma those_map_Some:
  "those (map g xs) = Some ys \<longleftrightarrow> list_all2 (\<lambda>x y. g x = Some y) xs ys"
proof (induction xs arbitrary: ys)
  case Nil
  then show ?case by auto
next
  case (Cons x xs)
  show ?case
  proof (cases "g x")
    case None
    then show ?thesis by (auto simp: list_all2_Cons1)
  next
    case (Some y)
    with Cons.IH show ?thesis
      by (cases "those (map g xs)") (auto simp: list_all2_Cons1)
  qed
qed

lemma readFailingNodes_Some:
  "readFailingNodes h arr = Some fs \<longleftrightarrow>
     (\<exists>refs. getArray h arr = Some refs \<and> list_all2 (\<lambda>a f. getFailingNode h a = Some f) refs fs)"
  by (auto simp: readFailingNodes_def those_map_Some split: option.splits)

lemma getArray_frame:
  assumes "take (length h0) h = h0" and "getArray h0 a = Some refs"
  shows "getArray h a = Some refs"
proof -
  from assms(2) have a: "a < length h0" by (simp add: getArray_def split: if_splits)
  have "length h0 = length (take (length h0) h)" by (simp only: assms(1))
  then have l: "length h0 \<le> length h" by simp
  have "take (length h0) h ! a = h ! a" using a by simp
  then have "h ! a = h0 ! a" by (simp only: assms(1))
  with l a assms(2) show ?thesis by (simp add: getArray_def)
qed

text \<open>What a store held at the call is read unchanged from a store that extends it.\<close>

lemma readFailingNodes_frame:
  assumes "take (length h0) h = h0" and "readFailingNodes h0 arr = Some fs"
  shows "readFailingNodes h arr = Some fs"
proof -
  from assms(2) obtain refs where g: "getArray h0 arr = Some refs"
    and l: "list_all2 (\<lambda>a f. getFailingNode h0 a = Some f) refs fs"
    by (auto simp: readFailingNodes_Some)
  have "list_all2 (\<lambda>a f. getFailingNode h a = Some f) refs fs"
    using l
  proof (rule list_all2_mono)
    fix a f assume s: "getFailingNode h0 a = Some f"
    then have "a < length h0" by (rule getFailingNode_Some_less)
    with assms(1) s show "getFailingNode h a = Some f" by (simp add: getFailingNode_frame)
  qed
  with getArray_frame [OF assms(1) g] show ?thesis
    by (auto simp: readFailingNodes_Some)
qed

text \<open>
  \<open>getUniqueFailingRules\<close> over the store leaves the objects of the call as they were and
  returns a new array whose records are the aggregated rules.
\<close>

lemma getUniqueFailingRules_st_correct:
  assumes "readFailingNodes h0 arr = Some fs"
  shows "\<exists>h1 arr1. getUniqueFailingRules_st h0 arr = Some (h1, arr1) \<and>
           take (length h0) h1 = h0 \<and> length h0 \<le> arr1 \<and>
           readFailingNodes h1 arr1 = Some (getUniqueFailingRules fs)"
proof -
  from assms obtain refs where g: "getArray h0 arr = Some refs"
    and l: "list_all2 (\<lambda>a f. getFailingNode h0 a = Some f) refs fs"
    by (auto simp: readFailingNodes_Some)
  have "store_inv h0 (h0, [])" by (simp add: store_inv_def)
  from foldlO_addFailingNode_st [OF this l] obtain h' m' where
    fo: "foldlO addFailingNode_st (h0, []) refs = Some (h', m')"
    and inv: "store_inv h0 (h', m')"
    and ab: "absMap h' m' = foldl addFailingNode (absMap h0 []) fs"
    by blast
  let ?h1 = "h' @ [ArrayObj (map snd m')]"
  from inv have fr: "take (length h0) h' = h0"
    and en: "\<forall>(k, a) \<in> set m'. length h0 \<le> a \<and> a < length h' \<and> getFailingNode h' a \<noteq> None"
    by (simp_all add: store_inv_def)
  have "length h0 = length (take (length h0) h')" by (simp only: fr)
  then have le: "length h0 \<le> length h'" by simp
  have res: "getUniqueFailingRules_st h0 arr = Some (?h1, length h')"
    using g fo by (simp add: getUniqueFailingRules_st_def alloc_def)
  have fr1: "take (length h0) ?h1 = h0" using fr le by simp
  have ga: "getArray ?h1 (length h') = Some (map snd m')"
    by (simp add: getArray_def)
  have "absMap h' m' = failingRulesMap fs"
    using ab by (simp add: absMap_def failingRulesMap_def)
  then have gu: "getUniqueFailingRules fs = map snd (absMap h' m')"
    by (simp add: getUniqueFailingRules_def)
  have "list_all2 (\<lambda>a f. getFailingNode ?h1 a = Some f) (map snd m') (map snd (absMap h' m'))"
    using en
    by (fastforce simp: absMap_def list_all2_map1 list_all2_map2 list_all2_same
        getFailingNode_append)
  with ga gu have "readFailingNodes ?h1 (length h') = Some (getUniqueFailingRules fs)"
    by (auto simp: readFailingNodes_Some)
  with res fr1 le show ?thesis by blast
qed

lemma map_insort_key:
  "map g (insort_key (\<lambda>x. f (g x)) x ys) = insort_key f (g x) (map g ys)"
  by (induction ys) simp_all

lemma map_sort_key:
  "map g (sort_key (\<lambda>x. f (g x)) xs) = sort_key f (map g xs)"
  by (induction xs) (simp_all add: map_insort_key)

text \<open>
  Sorting the array at \<open>arr\<close> in place changes that array only, and its records are then
  the sorted rules.
\<close>

lemma sortFailingRules_st_correct:
  assumes "readFailingNodes h1 arr = Some rs" and "n \<le> arr"
  shows "\<exists>h2. sortFailingRules_st h1 arr = Some h2 \<and> take n h2 = take n h1 \<and>
           readFailingNodes h2 arr = Some (sortFailingRules rs)"
proof -
  from assms(1) obtain refs where g: "getArray h1 arr = Some refs"
    and l: "list_all2 (\<lambda>a f. getFailingNode h1 a = Some f) refs rs"
    by (auto simp: readFailingNodes_Some)
  from g have arr: "arr < length h1" and isarr: "h1 ! arr = ArrayObj refs"
    by (auto simp: getArray_def split: if_splits obj.splits)
  let ?S = "sort_key (\<lambda>p. - int (textLength (snd p))) (zip refs rs)"
  let ?h2 = "h1[arr := ArrayObj (map fst ?S)]"
  from l have th: "those (map (getFailingNode h1) refs) = Some rs"
    by (simp add: those_map_Some)
  have res: "sortFailingRules_st h1 arr = Some ?h2"
    using g th by (simp add: sortFailingRules_st_def)
  have fr: "take n ?h2 = take n h1" using assms(2) by simp
  have ga: "getArray ?h2 arr = Some (map fst ?S)"
    using arr by (simp add: getArray_def)
  from l have len: "length refs = length rs" by (rule list_all2_lengthD)
  have "map snd ?S = sort_key (\<lambda>r. - int (textLength r)) (map snd (zip refs rs))"
    by (rule map_sort_key)
  with len have sn: "map snd ?S = sortFailingRules rs"
    by (simp add: sortFailingRules_def)
  have "\<forall>p \<in> set ?S. getFailingNode ?h2 (fst p) = Some (snd p)"
  proof
    fix p assume "p \<in> set ?S"
    then have "p \<in> set (zip refs rs)" by simp
    with l have s: "getFailingNode h1 (fst p) = Some (snd p)"
      by (auto simp: list_all2_iff)
    with isarr have "fst p \<noteq> arr"
      by (auto simp: getFailingNode_def split: if_splits)
    then have "getFailingNode ?h2 (fst p) = getFailingNode h1 (fst p)"
      by (simp add: getFailingNode_def)
    with s show "getFailingNode ?h2 (fst p) = Some (snd p)"
      by simp
  qed
  then have "list_all2 (\<lambda>a f. getFailingNode ?h2 a = Some f) (map fst ?S) (map snd ?S)"
    by (simp add: list_all2_map1 list_all2_map2 list_all2_same)
  with ga sn have "readFailingNodes ?h2 arr = Some (sortFailingRules rs)"
    by (auto simp: readFailingNodes_Some)
  with res fr show ?thesis by blast
qed

lemma derefArtifacts_simps:
  "TestedAsMobileDevice (derefArtifacts artifacts nodes) = TestedAsMobileDevice artifacts"
  "MetaElements (derefArtifacts artifacts nodes) = MetaElements artifacts"
  "URL (derefArtifacts artifacts nodes) = URL artifacts"
  "analyzedFailingNodesData (FontSize (derefArtifacts artifacts nodes)) = nodes"
  "totalTextLength (FontSize (derefArtifacts artifacts nodes)) = totalTextLength (FontSize artifacts)"
  "percentageOfPassingText (FontSize (derefArtifacts artifacts nodes)) =
     percentageOfPassingText (FontSize artifacts)"
  "syntheticRows (FontSize (derefArtifacts artifacts nodes)) = syntheticRows (FontSize artifacts)"
  by (simp_all add: derefArtifacts_def percentageOfPassingText_def syntheticRows_def
      unanalyzedRow_def legibleRow_def)

lemma auditReport_deref:
  "auditReport pageUrl (FontSize (derefArtifacts artifacts nodes)) rs =
   auditReport pageUrl (FontSize artifacts) rs"
  unfolding auditReport_def derefArtifacts_simps by (rule refl)

text \<open>
  C8. Let the array of failing nodes and its records be in the store at the call. Then the
  audit returns with a store whose objects of the call are unchanged: the array and every
  failing-node record, with its node and rule, read as before. What the audit allocates
  and writes lies behind them, and the product is that of the audit on the records. The
  URL and the meta elements are passed by value; the source has no assignment to them.
\<close>

theorem audit_st_frame:
  assumes "readFailingNodes h (analyzedFailingNodesData (FontSize artifacts)) = Some nodes"
  shows "\<exists>h' r. audit_st computedViewportMeta h artifacts = Some (h', r) \<and>
           take (length h) h' = h \<and>
           readFailingNodes h' (analyzedFailingNodesData (FontSize artifacts)) = Some nodes \<and>
           r = audit computedViewportMeta (derefArtifacts artifacts nodes)"
proof -
  let ?arr = "analyzedFailingNodesData (FontSize artifacts)"
  have same: "\<And>h'. take (length h) h' = h \<Longrightarrow> readFailingNodes h' ?arr = Some nodes"
    using assms by (simp add: readFailingNodes_frame)
  show ?thesis
  proof (cases "TestedAsMobileDevice artifacts \<and>
      computedViewportMeta (MetaElements artifacts) = Inr True \<and>
      totalTextLength (FontSize artifacts) \<noteq> 0")
    case False
    then have "audit_st computedViewportMeta h artifacts =
        Some (h, audit computedViewportMeta (derefArtifacts artifacts nodes))"
      by (auto simp: audit_st_def audit_def derefArtifacts_simps split: sum.splits)
    with assms show ?thesis by simp
  next
    case True
    from getUniqueFailingRules_st_correct [OF assms] obtain h1 arr1 where
      g: "getUniqueFailingRules_st h ?arr = Some (h1, arr1)"
      and f1: "take (length h) h1 = h" and le: "length h \<le> arr1"
      and r1: "readFailingNodes h1 arr1 = Some (getUniqueFailingRules nodes)"
      by blast
    from sortFailingRules_st_correct [OF r1 le] obtain h2 where
      s: "sortFailingRules_st h1 arr1 = Some h2"
      and f2: "take (length h) h2 = take (length h) h1"
      and r2: "readFailingNodes h2 arr1 = Some (sortFailingRules (getUniqueFailingRules nodes))"
      by blast
    let ?r = "auditReport (finalUrl (URL artifacts)) (FontSize artifacts)
        (sortFailingRules (getUniqueFailingRules nodes))"
    have st: "audit_st computedViewportMeta h artifacts = Some (h2, ?r)"
      using True g s r2 by (simp add: audit_st_def)
    have pu: "audit computedViewportMeta (derefArtifacts artifacts nodes) = ?r"
      using True by (simp add: audit_def derefArtifacts_simps auditReport_deref)
    from f1 f2 have fr: "take (length h) h2 = h" by simp
    from st fr same [OF fr] pu show ?thesis by simp
  qed
qed

lemma audit_st_example:
  "map_option fst (audit_st (\<lambda>_. Inr True) exampleStore exampleStoreArtifacts) =
     Some (exampleStore @ [FailingNodeObj (exampleFragment\<lparr>textLength := 350\<rparr>), ArrayObj [3]])"
  by (simp add: audit_st_def exampleStore_def exampleStoreArtifacts_def
      getUniqueFailingRules_st_def addFailingNode_st_def getFailingNode_def getArray_def
      alloc_def sortFailingRules_st_def readFailingNodes_def example_defs
      getFontArtifactId_def show_nat_eval)

theorem audit_st_frame_witness:
  "\<exists>h' r. audit_st (\<lambda>_. Inr True) exampleStore exampleStoreArtifacts = Some (h', r) \<and>
     take 3 h' = exampleStore \<and>
     readFailingNodes h' 2 =
       Some [exampleFragment, exampleFragment\<lparr>fontSize := 11, textLength := 50\<rparr>] \<and>
     getFailingNode h' 3 = Some (exampleFragment\<lparr>textLength := 350\<rparr>) \<and>
     r = audit (\<lambda>_. Inr True)
           (derefArtifacts exampleStoreArtifacts
              [exampleFragment, exampleFragment\<lparr>fontSize := 11, textLength := 50\<rparr>])"
proof -
  have rd: "readFailingNodes exampleStore (analyzedFailingNodesData (FontSize exampleStoreArtifacts)) =
      Some [exampleFragment, exampleFragment\<lparr>fontSize := 11, textLength := 50\<rparr>]"
    by (simp add: readFailingNodes_def getArray_def getFailingNode_def exampleStore_def
        exampleStoreArtifacts_def)
  from audit_st_frame [OF rd, of "\<lambda>_. Inr True"] obtain h' r where
    a: "audit_st (\<lambda>_. Inr True) exampleStore exampleStoreArtifacts = Some (h', r)"
    and f: "take (length exampleStore) h' = exampleStore"
    and s: "readFailingNodes h' (analyzedFailingNodesData (FontSize exampleStoreArtifacts)) =
      Some [exampleFragment, exampleFragment\<lparr>fontSize := 11, textLength := 50\<rparr>]"
    and p: "r = audit (\<lambda>_. Inr True)
           (derefArtifacts exampleStoreArtifacts
              [exampleFragment, exampleFragment\<lparr>fontSize := 11, textLength := 50\<rparr>])"
    by blast
  from a audit_st_example
  have "h' = exampleStore @ [FailingNodeObj (exampleFragment\<lparr>textLength := 350\<rparr>), ArrayObj [3]]"
    by simp
  then have n: "getFailingNode h' 3 = Some (exampleFragment\<lparr>textLength := 350\<rparr>)"
    by (simp add: getFailingNode_def exampleStore_def)
  have l: "length exampleStore = 3" by (simp add: exampleStore_def)
  have d: "analyzedFailingNodesData (FontSize exampleStoreArtifacts) = 2"
    by (simp add: exampleStoreArtifacts_def)
  from a f s p n l d show ?thesis by simp
qed

end
